theory Spec2Isabelle
  imports Complex_Main "HOL-Library.AList"
begin

text \<open>
  A model of the forecasting core of the inventory-projection application: the
  aggregator (\<^verbatim>\<open>aggregator.ts\<close>), the statistics it feeds (\<^verbatim>\<open>metrics.ts\<close>) and the
  forecaster (\<^verbatim>\<open>forecasting.ts\<close>), followed by the properties proved of them. Record
  fields carry a prefix for their record (\<open>o_\<close> for \<^verbatim>\<open>OrderRecord\<close>, \<open>ad_\<close> for
  \<^verbatim>\<open>AggregatedData\<close>, \<open>pa_\<close> for \<^verbatim>\<open>ProductAggregation\<close>, and so on); functions keep
  their names.
\<close>

section \<open>Numbers\<close>

text \<open>
  The program computes with JavaScript numbers. Arithmetic is modelled over the exact
  reals; rounding error of the floating-point representation is outside the model.
  A JavaScript division by zero or root of a negative number does not raise: it yields
  \<^verbatim>\<open>NaN\<close> or an infinity, which then flows through the rest of the computation.
  A \<open>number\<close> is therefore a \<open>real option\<close>: \<open>Some x\<close> is the finite number \<open>x\<close>, and
  \<open>None\<close> marks a value on the way to which a division by zero or the root of a negative
  number occurred. In JavaScript such a value is \<^verbatim>\<open>NaN\<close> or an infinity (or, in the one
  case \<^verbatim>\<open>Math.max(0, -Infinity)\<close>, the 0 that replaces it); in no case is it a number
  that the computation determined. The operations below pass \<open>None\<close> on.
\<close>

type_synonym number = "real option"

definition lift2 :: "(real \<Rightarrow> real \<Rightarrow> real) \<Rightarrow> number \<Rightarrow> number \<Rightarrow> number" where
  "lift2 f a b = (case a of None \<Rightarrow> None | Some x \<Rightarrow> (case b of None \<Rightarrow> None | Some y \<Rightarrow> Some (f x y)))"

definition n_add :: "number \<Rightarrow> number \<Rightarrow> number" where
  "n_add = lift2 (+)"

definition n_sub :: "number \<Rightarrow> number \<Rightarrow> number" where
  "n_sub = lift2 (-)"

definition n_mul :: "number \<Rightarrow> number \<Rightarrow> number" where
  "n_mul = lift2 (*)"

definition n_max :: "number \<Rightarrow> number \<Rightarrow> number" where
  "n_max = lift2 max"

definition n_div :: "number \<Rightarrow> number \<Rightarrow> number" where
  "n_div a b = (case a of None \<Rightarrow> None | Some x \<Rightarrow>
     (case b of None \<Rightarrow> None | Some y \<Rightarrow> if y = 0 then None else Some (x / y)))"

definition n_sqrt :: "number \<Rightarrow> number" where
  "n_sqrt a = (case a of None \<Rightarrow> None | Some x \<Rightarrow> if x < 0 then None else Some (sqrt x))"

text \<open>\<^verbatim>\<open>Math.round(x * 100) / 100\<close>; \<^verbatim>\<open>Math.round\<close> rounds half up.\<close>

definition round2 :: "real \<Rightarrow> real" where
  "round2 x = real_of_int \<lfloor>x * 100 + 1 / 2\<rfloor> / 100"

definition n_round2 :: "number \<Rightarrow> number" where
  "n_round2 = map_option round2"

definition n_ceil :: "number \<Rightarrow> number" where
  "n_ceil = map_option (\<lambda>x. real_of_int \<lceil>x\<rceil>)"

section \<open>Dates\<close>

text \<open>
  A \<^verbatim>\<open>Date\<close> is its time value: milliseconds since 1 January 1970 UTC. The source
  reads and builds dates in the local time of the host (\<^verbatim>\<open>getFullYear\<close>, \<^verbatim>\<open>getDate\<close>,
  \<^verbatim>\<open>new Date(y, m, d)\<close>, \<^verbatim>\<open>setDate\<close>, \<^verbatim>\<open>setMonth\<close>), so every date function
  takes the host's time zone, and follows the ECMAScript specification: local time is
  \<open>LocalTime\<close>, a local time is turned back by \<open>UTC\<close>, and days and months are those of
  \<open>MakeDay\<close>. An invalid date (time value \<^verbatim>\<open>NaN\<close>) is not a value of the type, and
  time values are taken to stay inside the range of \<^verbatim>\<open>Date\<close>.
  Months are counted from January 1970: month \<open>k\<close> is month \<open>k mod 12\<close> of year
  \<open>1970 + k div 12\<close>. \<open>DayFromYear\<close>, \<open>InLeapYear\<close> and the month lengths are those of
  the ECMAScript specification.
\<close>

type_synonym Date = int

definition msPerDay :: int where
  "msPerDay = 86400000"

definition Day :: "Date \<Rightarrow> int" where
  "Day t = t div msPerDay"

definition TimeWithinDay :: "Date \<Rightarrow> int" where
  "TimeWithinDay t = t mod msPerDay"

definition DayFromYear :: "int \<Rightarrow> int" where
  "DayFromYear y = 365 * (y - 1970) + (y - 1969) div 4 - (y - 1901) div 100 + (y - 1601) div 400"

definition InLeapYear :: "int \<Rightarrow> bool" where
  "InLeapYear y = (y mod 4 = 0 \<and> (y mod 100 \<noteq> 0 \<or> y mod 400 = 0))"

definition DaysInMonth :: "int \<Rightarrow> int \<Rightarrow> int" where
  "DaysInMonth y m =
     (if m = 1 then (if InLeapYear y then 29 else 28)
      else if m = 3 \<or> m = 5 \<or> m = 8 \<or> m = 10 then 30
      else 31)"

fun DaysBeforeMonth :: "int \<Rightarrow> nat \<Rightarrow> int" where
  "DaysBeforeMonth y 0 = 0"
| "DaysBeforeMonth y (Suc m) = DaysBeforeMonth y m + DaysInMonth y (int m)"

definition MonthStart :: "int \<Rightarrow> int" where
  "MonthStart k = DayFromYear (1970 + k div 12) + DaysBeforeMonth (1970 + k div 12) (nat (k mod 12))"

text \<open>The month-start days are strictly increasing: month \<open>k + 1\<close> starts
  \<open>DaysInMonth\<close> days after month \<open>k\<close>.\<close>

lemma DaysBeforeMonth_12: "DaysBeforeMonth y 12 = (if InLeapYear y then 366 else 365)"
  by (simp add: eval_nat_numeral DaysInMonth_def)

lemma div_add_one: 
  fixes a n :: int
  assumes n: "0 < n"
  shows "(a + 1) div n = a div n + (if (a + 1) mod n = 0 then 1 else 0)"
proof (cases "(a + 1) mod n = 0")
  case True
  then obtain q where q: "a + 1 = n * q" by (auto simp: mod_eq_0_iff_dvd)
  then have a: "a = n * (q - 1) + (n - 1)" by (simp add: algebra_simps)
  have "(n * (q - 1) + (n - 1)) div n = (q - 1) + (n - 1) div n"
    using n by (subst div_mult_self4) auto
  then have "a div n = q - 1"
    using a n by (simp add: div_pos_pos_trivial)
  moreover have "(a + 1) div n = q" using q n by simp
  ultimately show ?thesis using True by simp
next
  case False
  have lt: "a mod n < n" "0 \<le> a mod n" using n by simp_all
  have "a mod n + 1 \<noteq> n"
  proof
    assume "a mod n + 1 = n"
    then have "(a + 1) mod n = 0" by (metis mod_add_left_eq mod_self)
    then show False using False by simp
  qed
  then have small: "a mod n + 1 < n" using lt by linarith
  have "(n * (a div n) + (a mod n + 1)) div n = a div n + (a mod n + 1) div n"
    using n by (subst div_mult_self4) auto
  moreover have "n * (a div n) + (a mod n + 1) = a + 1" by simp
  ultimately have "(a + 1) div n = a div n + (a mod n + 1) div n" by simp
  also have "\<dots> = a div n" using small lt by (simp add: div_pos_pos_trivial)
  finally show ?thesis using False by simp
qed

lemma mod4_shift: "(y - 1968) mod 4 = 0 \<longleftrightarrow> y mod 4 = (0::int)" by presburger
lemma mod100_shift: "(y - 1900) mod 100 = 0 \<longleftrightarrow> y mod 100 = (0::int)" 
proof -
  have "(y - 1900) mod 100 = (y - 100 * 19) mod 100" by simp
  also have "\<dots> = y mod 100" by (simp only: mod_mult_self1 mod_diff_right_eq [symmetric] mod_mult_self1_is_0 diff_zero mod_mod_trivial)
  finally show ?thesis by simp
qed
lemma mod400_shift: "(y - 1600) mod 400 = 0 \<longleftrightarrow> y mod 400 = (0::int)"
proof -
  have "(y - 1600) mod 400 = (y - 400 * 4) mod 400" by simp
  also have "\<dots> = y mod 400" by (simp only: mod_diff_right_eq [symmetric] mod_mult_self1_is_0 diff_zero mod_mod_trivial)
  finally show ?thesis by simp
qed

lemma DayFromYear_Suc: "DayFromYear (y + 1) = DayFromYear y + (if InLeapYear y then 366 else 365)"
proof -
  have a: "(y + 1 - 1969) div 4 = (y - 1969) div 4 + (if y mod 4 = 0 then 1 else 0)"
    using div_add_one [of 4 "y - 1969"] mod4_shift [of y] by (simp add: algebra_simps)
  have b: "(y + 1 - 1901) div 100 = (y - 1901) div 100 + (if y mod 100 = 0 then 1 else 0)"
    using div_add_one [of 100 "y - 1901"] mod100_shift [of y] by (simp add: algebra_simps)
  have c: "(y + 1 - 1601) div 400 = (y - 1601) div 400 + (if y mod 400 = 0 then 1 else 0)"
    using div_add_one [of 400 "y - 1601"] mod400_shift [of y] by (simp add: algebra_simps)
  have d: "y mod 400 = 0 \<Longrightarrow> y mod 100 = 0" "y mod 100 = 0 \<Longrightarrow> y mod 4 = 0"
    by auto
  show ?thesis
  proof (cases "y mod 4 = 0")
    case False
    then show ?thesis unfolding DayFromYear_def InLeapYear_def a b c using d by auto
  next
    case True
    then show ?thesis unfolding DayFromYear_def InLeapYear_def a b c using d by auto
  qed
qed

lemma div_mod_decomp:
  fixes q r n :: int
  assumes "0 \<le> r" "r < n"
  shows "(n * q + r) div n = q" "(n * q + r) mod n = r"
  using assms by (simp_all add: div_pos_pos_trivial)

lemma MonthStart_Suc: "MonthStart (k + 1) = MonthStart k + DaysInMonth (1970 + k div 12) (k mod 12)"
proof -
  define q r where "q = k div 12" and "r = k mod 12"
  have k: "k = 12 * q + r" and r: "0 \<le> r" "r < 12"
    by (simp_all add: q_def r_def)
  show ?thesis
  proof (cases "r = 11")
    case True
    then have e: "k + 1 = 12 * (q + 1) + 0" using k by simp
    have d: "(k + 1) div 12 = q + 1" unfolding e by (rule div_mod_decomp) simp_all
    have m: "(k + 1) mod 12 = 0" unfolding e by (rule div_mod_decomp) simp_all
    have "DaysBeforeMonth y 12 = DaysBeforeMonth y 11 + DaysInMonth y 11" for y
      by (simp add: eval_nat_numeral)
    then have "DaysBeforeMonth (1970 + q) 11 + DaysInMonth (1970 + q) 11 = (if InLeapYear (1970 + q) then 366 else 365)"
      using DaysBeforeMonth_12 [of "1970 + q"] by simp
    moreover have "DayFromYear (1970 + (q + 1)) = DayFromYear (1970 + q) + (if InLeapYear (1970 + q) then 366 else 365)"
      using DayFromYear_Suc [of "1970 + q"] by (simp add: add.assoc)
    ultimately show ?thesis
      unfolding MonthStart_def d m q_def [symmetric] r_def [symmetric] True by simp
  next
    case False
    then have r1: "0 \<le> r + 1" "r + 1 < 12" using r by simp_all
    have e: "k + 1 = 12 * q + (r + 1)" using k by simp
    have d: "(k + 1) div 12 = q" unfolding e by (rule div_mod_decomp) (rule r1)+
    have m: "(k + 1) mod 12 = r + 1" unfolding e by (rule div_mod_decomp) (rule r1)+
    have "nat (r + 1) = Suc (nat r)" using r by simp
    then show ?thesis
      unfolding MonthStart_def d m q_def [symmetric] r_def [symmetric] using r by simp
  qed
qed

lemma DaysInMonth_bounds: "28 \<le> DaysInMonth y m" "DaysInMonth y m \<le> 31"
  by (simp_all add: DaysInMonth_def)

lemma MonthStart_less: "MonthStart k < MonthStart (k + 1)"
  using DaysInMonth_bounds(1) [of "1970 + k div 12" "k mod 12"] by (simp add: MonthStart_Suc)

function MonthSearch :: "int \<Rightarrow> int \<Rightarrow> int" where
  "MonthSearch k d = (if MonthStart (k + 1) \<le> d then MonthSearch (k + 1) d else k)"
  by pat_completeness auto
termination
proof (relation "measure (\<lambda>(k, d). nat (d + 1 - MonthStart (k + 1)))")
  show "wf (measure (\<lambda>(k, d). nat (d + 1 - MonthStart (k + 1))))" by simp
next
  fix k d :: int
  assume "MonthStart (k + 1) \<le> d"
  then show "((k + 1, d), (k, d)) \<in> measure (\<lambda>(k, d). nat (d + 1 - MonthStart (k + 1)))"
    using MonthStart_less [of "k + 1"] by simp
qed

declare MonthSearch.simps [simp del]

text \<open>The month containing day \<open>d\<close>: the search starts at a month that begins no
  later than \<open>d\<close> (a month has between 28 and 31 days) and walks forward.\<close>

definition MonthFromDay :: "int \<Rightarrow> int" where
  "MonthFromDay d = MonthSearch (if 0 \<le> d then d div 31 else d div 28) d"

text \<open>
  The time zone of the host: the offset of local time from UTC in milliseconds, as a
  function of the UTC time value (\<^verbatim>\<open>LocalTZA(t, true)\<close>) and as a function of the local
  time value (\<^verbatim>\<open>LocalTZA(t, false)\<close>). Where the clock is put forward the skipped local
  times are read with the offset before the change.
\<close>

record HostZone =
  localTZA_utc :: "int \<Rightarrow> int"
  localTZA_local :: "int \<Rightarrow> int"

definition LocalTime :: "HostZone \<Rightarrow> Date \<Rightarrow> int" where
  "LocalTime z t = t + localTZA_utc z t"

definition UTC :: "HostZone \<Rightarrow> int \<Rightarrow> Date" where
  "UTC z t = t - localTZA_local z t"

definition YearFromTime :: "int \<Rightarrow> int" where
  "YearFromTime t = 1970 + MonthFromDay (Day t) div 12"

definition MonthFromTime :: "int \<Rightarrow> int" where
  "MonthFromTime t = MonthFromDay (Day t) mod 12"

definition DateFromTime :: "int \<Rightarrow> int" where
  "DateFromTime t = Day t - MonthStart (MonthFromDay (Day t)) + 1"

definition WeekDay :: "int \<Rightarrow> int" where
  "WeekDay t = (Day t + 4) mod 7"

text \<open>\<open>MakeDay\<close>: the day number of day \<open>dt\<close> of a month, where \<open>month\<close> and \<open>dt\<close> may lie
  outside their calendar ranges and are carried over.\<close>

definition MakeDay :: "int \<Rightarrow> int \<Rightarrow> int \<Rightarrow> int" where
  "MakeDay year month dt = MonthStart (12 * (year - 1970) + month) + dt - 1"

definition MakeDate :: "int \<Rightarrow> int \<Rightarrow> int" where
  "MakeDate day time = day * msPerDay + time"

definition getFullYear :: "HostZone \<Rightarrow> Date \<Rightarrow> int" where
  "getFullYear z t = YearFromTime (LocalTime z t)"

definition getMonth :: "HostZone \<Rightarrow> Date \<Rightarrow> int" where
  "getMonth z t = MonthFromTime (LocalTime z t)"

definition getDate :: "HostZone \<Rightarrow> Date \<Rightarrow> int" where
  "getDate z t = DateFromTime (LocalTime z t)"

definition getDay :: "HostZone \<Rightarrow> Date \<Rightarrow> int" where
  "getDay z t = WeekDay (LocalTime z t)"

text \<open>\<^verbatim>\<open>new Date(year, month, date)\<close>: local midnight of that day; a year from 0 to 99
  is read as 1900 to 1999.\<close>

definition newDate :: "HostZone \<Rightarrow> int \<Rightarrow> int \<Rightarrow> int \<Rightarrow> Date" where
  "newDate z year month dt =
     (let yr = (if 0 \<le> year \<and> year \<le> 99 then 1900 + year else year)
      in UTC z (MakeDate (MakeDay yr month dt) 0))"

text \<open>\<^verbatim>\<open>setDate\<close> and \<^verbatim>\<open>setMonth\<close> keep the local time of day.\<close>

definition setDate :: "HostZone \<Rightarrow> Date \<Rightarrow> int \<Rightarrow> Date" where
  "setDate z t dt =
     (let lt = LocalTime z t
      in UTC z (MakeDate (MakeDay (YearFromTime lt) (MonthFromTime lt) dt) (TimeWithinDay lt)))"

definition setMonth :: "HostZone \<Rightarrow> Date \<Rightarrow> int \<Rightarrow> Date" where
  "setMonth z t month =
     (let lt = LocalTime z t
      in UTC z (MakeDate (MakeDay (YearFromTime lt) month (DateFromTime lt)) (TimeWithinDay lt)))"

section \<open>Aggregator (aggregator.ts)\<close>

datatype AggregationPeriod = daily | weekly | monthly

record OrderRecord =
  o_date :: Date
  o_productId :: string
  o_productName :: string
  o_quantity :: real
  o_category :: "string option"
  o_unitPrice :: "real option"
  o_supplier :: "string option"

text \<open>
  The \<^verbatim>\<open>period\<close> of a bucket is the ISO string of its start; distinct dates have
  distinct ISO strings and the code parses the string back for sorting, so the field
  holds the date itself. The display label (\<^verbatim>\<open>periodLabel\<close>) is locale formatting
  and is left out.
\<close>

record AggregatedData =
  ad_period :: Date
  ad_productId :: string
  ad_productName :: string
  ad_totalQuantity :: real
  ad_orderCount :: nat
  ad_avgQuantityPerOrder :: real

record ProductAggregation =
  pa_productId :: string
  pa_productName :: string
  pa_category :: "string option"
  pa_data :: "AggregatedData list"
  pa_totalOrders :: nat
  pa_totalQuantity :: real
  pa_firstOrderDate :: Date
  pa_lastOrderDate :: Date

definition getPeriodStart :: "HostZone \<Rightarrow> Date \<Rightarrow> AggregationPeriod \<Rightarrow> Date" where
  "getPeriodStart z date period =
     (let d = date in
      case period of
        daily \<Rightarrow> newDate z (getFullYear z d) (getMonth z d) (getDate z d)
      | weekly \<Rightarrow>
          (let day = getDay z d;
               diff = getDate z d - day + (if day = 0 then - 6 else 1)
           in newDate z (getFullYear z d) (getMonth z d) diff)
      | monthly \<Rightarrow> newDate z (getFullYear z d) (getMonth z d) 1)"

text \<open>The \<^verbatim>\<open>switch\<close> that moves \<^verbatim>\<open>current\<close> to the next period.\<close>

definition advance :: "HostZone \<Rightarrow> Date \<Rightarrow> AggregationPeriod \<Rightarrow> Date" where
  "advance z current period =
     (case period of
        daily \<Rightarrow> setDate z current (getDate z current + 1)
      | weekly \<Rightarrow> setDate z current (getDate z current + 7)
      | monthly \<Rightarrow> setMonth z current (getMonth z current + 1))"

text \<open>
  The \<^verbatim>\<open>while (current <= end)\<close> loop of \<^verbatim>\<open>generatePeriods\<close>, with the array it
  pushes to. Nothing in the loop bounds the number of iterations for an arbitrary time
  zone, so the result is optional: \<open>None\<close> is a loop that does not return.
\<close>

partial_function (option) generatePeriods_loop ::
    "HostZone \<Rightarrow> AggregationPeriod \<Rightarrow> Date \<Rightarrow> Date \<Rightarrow> Date list \<Rightarrow> Date list option" where
  "generatePeriods_loop z period endStart current periods =
     (if current \<le> endStart
      then generatePeriods_loop z period endStart (advance z current period) (periods @ [current])
      else Some periods)"

declare generatePeriods_loop.simps [code]

definition generatePeriods :: "HostZone \<Rightarrow> Date \<Rightarrow> Date \<Rightarrow> AggregationPeriod \<Rightarrow> Date list option" where
  "generatePeriods z startDate endDate period =
     generatePeriods_loop z period (getPeriodStart z endDate period) (getPeriodStart z startDate period) []"

text \<open>
  The product map and the per-product period map are JavaScript \<^verbatim>\<open>Map\<close>s: association
  lists in insertion order, where setting an absent key appends and setting a present
  key replaces the value in place (\<open>AList.update\<close>).
\<close>

definition newProductAgg :: "OrderRecord \<Rightarrow> ProductAggregation" where
  "newProductAgg order =
     \<lparr>pa_productId = o_productId order,
      pa_productName = o_productName order,
      pa_category = o_category order,
      pa_data = [],
      pa_totalOrders = 0,
      pa_totalQuantity = 0,
      pa_firstOrderDate = o_date order,
      pa_lastOrderDate = o_date order\<rparr>"

text \<open>One iteration of the grouping loop.\<close>

definition groupOrder :: "(string \<times> ProductAggregation) list \<Rightarrow> OrderRecord
    \<Rightarrow> (string \<times> ProductAggregation) list" where
  "groupOrder productMap order =
     (let productAgg = (case map_of productMap (o_productId order) of
                          Some found \<Rightarrow> found
                        | None \<Rightarrow> newProductAgg order);
          productAgg = productAgg\<lparr>pa_totalOrders := pa_totalOrders productAgg + 1,
                                  pa_totalQuantity := pa_totalQuantity productAgg + o_quantity order\<rparr>;
          productAgg = (if o_date order < pa_firstOrderDate productAgg
                        then productAgg\<lparr>pa_firstOrderDate := o_date order\<rparr> else productAgg);
          productAgg = (if o_date order > pa_lastOrderDate productAgg
                        then productAgg\<lparr>pa_lastOrderDate := o_date order\<rparr> else productAgg)
      in AList.update (o_productId order) productAgg productMap)"

definition emptyBucket :: "Date \<Rightarrow> string \<Rightarrow> ProductAggregation \<Rightarrow> AggregatedData" where
  "emptyBucket periodDate productId productAgg =
     \<lparr>ad_period = periodDate,
      ad_productId = productId,
      ad_productName = pa_productName productAgg,
      ad_totalQuantity = 0,
      ad_orderCount = 0,
      ad_avgQuantityPerOrder = 0\<rparr>"

text \<open>One iteration of the loop that folds the product's orders into their buckets.\<close>

definition addOrder :: "HostZone \<Rightarrow> AggregationPeriod \<Rightarrow> (Date \<times> AggregatedData) list \<Rightarrow> OrderRecord
    \<Rightarrow> (Date \<times> AggregatedData) list" where
  "addOrder z period periodData order =
     (let periodStart = getPeriodStart z (o_date order) period;
          periodKey = periodStart
      in case map_of periodData periodKey of
           Some data \<Rightarrow>
             AList.update periodKey
               (data\<lparr>ad_totalQuantity := ad_totalQuantity data + o_quantity order,
                      ad_orderCount := ad_orderCount data + 1\<rparr>) periodData
         | None \<Rightarrow> periodData)"

definition withAverage :: "AggregatedData \<Rightarrow> AggregatedData" where
  "withAverage d =
     d\<lparr>ad_avgQuantityPerOrder :=
         (if ad_orderCount d > 0 then ad_totalQuantity d / real (ad_orderCount d) else 0)\<rparr>"

text \<open>The body of the second loop, for one product, given the periods that
  \<^verbatim>\<open>generatePeriods\<close> returned.\<close>

definition fillPeriods :: "HostZone \<Rightarrow> OrderRecord list \<Rightarrow> AggregationPeriod \<Rightarrow> string
    \<Rightarrow> ProductAggregation \<Rightarrow> Date list \<Rightarrow> ProductAggregation" where
  "fillPeriods z orders period productId productAgg allPeriods =
     (let productOrders = filter (\<lambda>ord. o_productId ord = productId) orders;
          periodData = foldl (\<lambda>m periodDate.
                          AList.update periodDate (emptyBucket periodDate productId productAgg) m)
                        [] allPeriods;
          periodData = foldl (addOrder z period) periodData productOrders;
          sortedData = sort_key ad_period (map withAverage (map snd periodData))
      in productAgg\<lparr>pa_data := sortedData\<rparr>)"

definition aggregateProduct :: "HostZone \<Rightarrow> OrderRecord list \<Rightarrow> AggregationPeriod \<Rightarrow> string
    \<Rightarrow> ProductAggregation \<Rightarrow> ProductAggregation option" where
  "aggregateProduct z orders period productId productAgg =
     map_option (fillPeriods z orders period productId productAgg)
       (generatePeriods z (pa_firstOrderDate productAgg) (pa_lastOrderDate productAgg) period)"

text \<open>The result is the product map once every product's period loop has returned.\<close>

definition aggregateOrderData :: "HostZone \<Rightarrow> OrderRecord list \<Rightarrow> AggregationPeriod
    \<Rightarrow> (string \<times> ProductAggregation) list option" where
  "aggregateOrderData z orders period =
     (let productMap = foldl groupOrder [] orders
      in those (map (\<lambda>(productId, productAgg).
                       map_option (Pair productId)
                         (aggregateProduct z orders period productId productAgg)) productMap))"

section \<open>Statistics (metrics.ts)\<close>

text \<open>
  A sum written with \<^verbatim>\<open>reduce\<close> or an accumulating loop is \<open>sum_list\<close>. The
  divisions of this section are guarded in the source by a test on the divisor, and the
  root in \<open>stdDeviation\<close> is taken of a variance, which is never negative.
\<close>

definition mean :: "real list \<Rightarrow> real" where
  "mean values = (if length values = 0 then 0 else sum_list values / real (length values))"

definition variance :: "real list \<Rightarrow> real" where
  "variance values =
     (if length values < 2 then 0
      else let avg = mean values;
               squaredDiffs = map (\<lambda>v. (v - avg)\<^sup>2) values
           in sum_list squaredDiffs / real (length values - 1))"

definition stdDeviation :: "real list \<Rightarrow> real" where
  "stdDeviation values = sqrt (variance values)"

definition zScore :: "real \<Rightarrow> real \<Rightarrow> real \<Rightarrow> real" where
  "zScore v avg std = (if std = 0 then 0 else (v - avg) / std)"

text \<open>\<^verbatim>\<open>values[0] || 0\<close>: the first value, and 0 for an empty array (or a first value 0).\<close>

definition firstOrZero :: "real list \<Rightarrow> real" where
  "firstOrZero values = (case values of [] \<Rightarrow> 0 | v # rest \<Rightarrow> v)"

record RegressionResult =
  rr_slope :: real
  rr_intercept :: real
  rr_rSquared :: real

text \<open>The \<^verbatim>\<open>predict\<close> closure of a regression result. For fewer than two values the
  source returns the constant \<^verbatim>\<open>values[0] || 0\<close>, which is this line with slope 0.\<close>

definition predict :: "RegressionResult \<Rightarrow> real \<Rightarrow> real" where
  "predict r x = rr_slope r * x + rr_intercept r"

definition linearRegression :: "real list \<Rightarrow> RegressionResult" where
  "linearRegression values =
     (let n = length values in
      if n < 2 then \<lparr>rr_slope = 0, rr_intercept = firstOrZero values, rr_rSquared = 0\<rparr>
      else
        let xValues = map real [0..<n];
            xMean = mean xValues;
            yMean = mean values;
            numerator = sum_list (map (\<lambda>(x, y). (x - xMean) * (y - yMean)) (zip xValues values));
            denominator = sum_list (map (\<lambda>x. (x - xMean) * (x - xMean)) xValues);
            slope = (if denominator \<noteq> 0 then numerator / denominator else 0);
            intercept = yMean - slope * xMean;
            predictions = map (\<lambda>x. slope * x + intercept) xValues;
            ssRes = sum_list (map (\<lambda>(y, p). (y - p)\<^sup>2) (zip values predictions));
            ssTot = sum_list (map (\<lambda>y. (y - yMean)\<^sup>2) values);
            rSquared = (if ssTot \<noteq> 0 then 1 - ssRes / ssTot else 0)
        in \<lparr>rr_slope = slope, rr_intercept = intercept, rr_rSquared = max 0 rSquared\<rparr>)"

datatype OutlierType = Spike | Drop

record OutlierData =
  od_period :: Date
  od_quantity :: real
  od_zScore :: real
  od_type :: OutlierType

text \<open>The items are pairs of a period and a quantity. The \<^verbatim>\<open>date\<close> of an outlier is
  its period again and is left out.\<close>

definition detectOutliers :: "(Date \<times> real) list \<Rightarrow> real \<Rightarrow> OutlierData list" where
  "detectOutliers data zScoreThreshold =
     (let quantities = map snd data;
          avg = mean quantities;
          std = stdDeviation quantities
      in if std = 0 then []
         else map (\<lambda>(p, q). \<lparr>od_period = p, od_quantity = q, od_zScore = zScore q avg std,
                              od_type = (if zScore q avg std > 0 then Spike else Drop)\<rparr>)
                (filter (\<lambda>(p, q). \<bar>zScore q avg std\<bar> > zScoreThreshold) data))"

section \<open>Student-t critical values (forecasting.ts)\<close>

text \<open>
  A row of \<^verbatim>\<open>T_CRITICAL\<close>: the entries at the finite degrees of freedom, in the order
  \<^verbatim>\<open>Object.keys\<close> lists them (integer keys ascending, before the key \<^verbatim>\<open>Infinity\<close>),
  and the entry at \<^verbatim>\<open>Infinity\<close>.
\<close>

type_synonym t_row = "(int \<times> real) list \<times> real"

definition row_90 :: t_row where
  "row_90 = ([(5, 2.015), (10, 1.812), (20, 1.725), (30, 1.697), (50, 1.676), (100, 1.660)], 1.645)"

definition row_95 :: t_row where
  "row_95 = ([(5, 2.571), (10, 2.228), (20, 2.086), (30, 2.042), (50, 2.009), (100, 1.984)], 1.960)"

definition row_99 :: t_row where
  "row_99 = ([(5, 4.032), (10, 3.169), (20, 2.845), (30, 2.750), (50, 2.678), (100, 2.626)], 2.576)"

definition T_CRITICAL :: "real \<Rightarrow> t_row option" where
  "T_CRITICAL confidence =
     (if confidence = 0.90 then Some row_90
      else if confidence = 0.95 then Some row_95
      else if confidence = 0.99 then Some row_99
      else None)"

text \<open>The loop of \<^verbatim>\<open>getTCritical\<close> over the finite keys: the first key with \<open>df \<le> key\<close>.\<close>

fun first_key_ge :: "(int \<times> real) list \<Rightarrow> int \<Rightarrow> real option" where
  "first_key_ge [] df = None"
| "first_key_ge ((k, t) # rest) df = (if df \<le> k then Some t else first_key_ge rest df)"

definition getTCritical :: "real \<Rightarrow> int \<Rightarrow> real" where
  "getTCritical confidence df =
     (let confidenceTable = (case T_CRITICAL confidence of Some row \<Rightarrow> row | None \<Rightarrow> row_95)
      in case first_key_ge (fst confidenceTable) df of
           Some t \<Rightarrow> t
         | None \<Rightarrow> snd confidenceTable)"

definition calculateConfidenceInterval :: "number \<Rightarrow> number \<Rightarrow> nat \<Rightarrow> real \<Rightarrow> number \<times> number" where
  "calculateConfidenceInterval forecast standardError sampleSize confidenceLevel =
     (let df = max 1 (int sampleSize - 1);
          tCritical = getTCritical confidenceLevel df;
          margin = n_mul (Some tCritical) standardError
      in (n_max (Some 0) (n_sub forecast margin), n_add forecast margin))"

section \<open>Trend classification (metrics.ts)\<close>

datatype TrendDirection = Increasing | Decreasing | Stable

definition determineTrend :: "real \<Rightarrow> real \<Rightarrow> real \<Rightarrow> TrendDirection" where
  "determineTrend slope rSquared avgValue =
     (let normalizedSlope = (if avgValue \<noteq> 0 then slope / avgValue else 0);
          significantRSquared = (rSquared > 0.1);
          significantSlope = (\<bar>normalizedSlope\<bar> > 0.02)
      in if \<not> significantRSquared \<or> \<not> significantSlope then Stable
         else if slope > 0 then Increasing else Decreasing)"

section \<open>Forecasting methods (forecasting.ts)\<close>

record MovingAverage =
  ma_forecast :: number
  ma_standardError :: number

text \<open>\<^verbatim>\<open>xs.slice(start)\<close>: a negative start counts from the end of the array.\<close>

definition slice_from :: "int \<Rightarrow> 'a list \<Rightarrow> 'a list" where
  "slice_from start xs =
     (let len = int (length xs);
          k = (if start < 0 then max (len + start) 0 else min start len)
      in drop (nat k) xs)"

definition simpleMovingAverage :: "real list \<Rightarrow> int \<Rightarrow> MovingAverage" where
  "simpleMovingAverage values periods =
     (if length values = 0 then \<lparr>ma_forecast = Some 0, ma_standardError = Some 0\<rparr>
      else
        let n = min periods (int (length values));
            recentValues = slice_from (- n) values;
            forecast = mean recentValues;
            standardError = n_div (Some (stdDeviation recentValues)) (n_sqrt (Some (real_of_int n)))
        in \<lparr>ma_forecast = Some forecast, ma_standardError = standardError\<rparr>)"

definition weightedMovingAverage :: "real list \<Rightarrow> int \<Rightarrow> MovingAverage" where
  "weightedMovingAverage values periods =
     (if length values = 0 then \<lparr>ma_forecast = Some 0, ma_standardError = Some 0\<rparr>
      else
        let n = min periods (int (length values));
            recentValues = slice_from (- n) values;
            weights = map (\<lambda>i. real i + 1) [0..<length recentValues];
            totalWeight = sum_list weights;
            weightedSum = sum_list (map (\<lambda>(v, w). v * w) (zip recentValues weights));
            forecast = n_div (Some weightedSum) (Some totalWeight);
            weightedVariance =
              foldl (\<lambda>acc (v, w). n_add acc (n_mul (Some w)
                       (n_mul (n_sub (Some v) forecast) (n_sub (Some v) forecast))))
                (Some 0) (zip recentValues weights);
            weightedVariance = n_div weightedVariance (Some totalWeight);
            standardError = n_div (n_sqrt weightedVariance) (n_sqrt (Some (real_of_int n)))
        in \<lparr>ma_forecast = forecast, ma_standardError = standardError\<rparr>)"

record RegressionForecast =
  rf_forecasts :: "number list"
  rf_standardErrors :: "number list"
  rf_rSquared :: real

definition linearRegressionForecast :: "real list \<Rightarrow> nat \<Rightarrow> RegressionForecast" where
  "linearRegressionForecast values periodsAhead =
     (if length values < 2
      then \<lparr>rf_forecasts = replicate periodsAhead (Some (firstOrZero values)),
            rf_standardErrors = replicate periodsAhead (Some 0),
            rf_rSquared = 0\<rparr>
      else
        let regression = linearRegression values;
            n = length values;
            predictions = map (\<lambda>i. predict regression (real i)) [0..<n];
            residuals = map (\<lambda>(v, p). v - p) (zip values predictions);
            residualSS = sum_list (map (\<lambda>r. r * r) residuals);
            standardErrorEstimate = n_sqrt (n_div (Some residualSS) (Some (real n - 2)));
            xMean = (real n - 1) / 2;
            xVariance = sum_list (map (\<lambda>i. (real i - xMean)\<^sup>2) [0..<n]);
            forecasts = map (\<lambda>i. let x = real (n + i);
                                    forecast = predict regression x
                                in Some (max 0 forecast)) [0..<periodsAhead];
            standardErrors = map (\<lambda>i. let x = real (n + i);
                                         distanceFromMean = (x - xMean)\<^sup>2;
                                         se = n_mul standardErrorEstimate
                                                (n_sqrt (n_add (n_add (Some 1) (n_div (Some 1) (Some (real n))))
                                                               (n_div (Some distanceFromMean) (Some xVariance))))
                                     in se) [0..<periodsAhead]
        in \<lparr>rf_forecasts = forecasts, rf_standardErrors = standardErrors,
            rf_rSquared = rr_rSquared regression\<rparr>)"

section \<open>Projection (forecasting.ts, aggregator.ts)\<close>

definition getPeriodsPerWeek :: "AggregationPeriod \<Rightarrow> real" where
  "getPeriodsPerWeek period = (case period of daily \<Rightarrow> 7 | weekly \<Rightarrow> 1 | monthly \<Rightarrow> 0.25)"

definition getPeriodsPerMonth :: "AggregationPeriod \<Rightarrow> real" where
  "getPeriodsPerMonth period = (case period of daily \<Rightarrow> 30 | weekly \<Rightarrow> 4.33 | monthly \<Rightarrow> 1)"

text \<open>
  A timeframe string, as the two regular expressions of \<^verbatim>\<open>timeframeToPeriods\<close> read
  it: a number of weeks, a number of months, or neither. The nine strings of the type
  \<^verbatim>\<open>ProjectionTimeframe\<close> are \<open>WeekMatch\<close> 1, 2, 4, 8, 12 and \<open>MonthMatch\<close> 1, 2, 3, 6.
\<close>

datatype Timeframe = WeekMatch nat | MonthMatch nat | NoMatch

definition timeframeToPeriods :: "Timeframe \<Rightarrow> AggregationPeriod \<Rightarrow> nat" where
  "timeframeToPeriods timeframe period =
     (case timeframe of
        WeekMatch weeks \<Rightarrow> nat \<lceil>real weeks * getPeriodsPerWeek period\<rceil>
      | MonthMatch months \<Rightarrow> nat \<lceil>real months * getPeriodsPerMonth period\<rceil>
      | NoMatch \<Rightarrow> 4)"

fun generateFuturePeriods_loop :: "HostZone \<Rightarrow> nat \<Rightarrow> Date \<Rightarrow> AggregationPeriod \<Rightarrow> Date list" where
  "generateFuturePeriods_loop z 0 current period = []"
| "generateFuturePeriods_loop z (Suc k) current period =
     advance z current period # generateFuturePeriods_loop z k (advance z current period) period"

definition generateFuturePeriods :: "HostZone \<Rightarrow> Date \<Rightarrow> nat \<Rightarrow> AggregationPeriod \<Rightarrow> Date list" where
  "generateFuturePeriods z lastDate numPeriods period =
     generateFuturePeriods_loop z numPeriods (getPeriodStart z lastDate period) period"

datatype ForecastMethod = sma | wma | linear_regression

record ForecastSettings =
  s_method :: ForecastMethod
  s_timeframe :: Timeframe
  s_periods :: int
  s_safetyStockPercent :: real
  s_leadTimeDays :: real
  s_confidenceLevel :: real

record ProductMetrics =
  m_productId :: string
  m_productName :: string
  m_avgDailyDemand :: real
  m_avgWeeklyDemand :: real
  m_avgMonthlyDemand :: real
  m_variance :: real
  m_stdDeviation :: real
  m_coefficientOfVariation :: real
  m_trend :: TrendDirection
  m_trendSlope :: real
  m_trendStrength :: real
  m_seasonalityIndex :: "real list option"
  m_outliers :: "OutlierData list"
  m_minDemand :: real
  m_maxDemand :: real
  m_medianDemand :: real

record ProjectionPoint =
  pp_period :: Date
  pp_projectedDemand :: number
  pp_confidenceLow :: number
  pp_confidenceHigh :: number
  pp_isForecast :: bool

record ProductProjection =
  p_productId :: string
  p_productName :: string
  p_category :: "string option"
  p_historicalData :: "ProjectionPoint list"
  p_projectedData :: "ProjectionPoint list"
  p_totalProjectedDemand :: number
  p_avgProjectedDemand :: number
  p_suggestedReorderQty :: number
  p_reorderPoint :: number
  p_safetyStock :: number
  p_confidenceLevel :: real
  p_method :: ForecastMethod
  p_metrics :: ProductMetrics

text \<open>The forecast point built in each branch of the \<^verbatim>\<open>switch\<close> on the method. As
  for the buckets, the \<^verbatim>\<open>period\<close> of a point is the date itself and the display label is
  left out; so is the optional \<^verbatim>\<open>currentStock\<close> of a projection, which the code never
  sets.\<close>

definition forecastPoint :: "Date \<Rightarrow> number \<Rightarrow> number \<Rightarrow> nat \<Rightarrow> real \<Rightarrow> ProjectionPoint" where
  "forecastPoint p forecast standardError sampleSize confidenceLevel =
     (let (low, high) = calculateConfidenceInterval forecast standardError sampleSize confidenceLevel
      in \<lparr>pp_period = p,
          pp_projectedDemand = n_round2 forecast,
          pp_confidenceLow = n_round2 low,
          pp_confidenceHigh = n_round2 high,
          pp_isForecast = True\<rparr>)"

definition generateProductProjection :: "HostZone \<Rightarrow> ProductAggregation \<Rightarrow> ProductMetrics
    \<Rightarrow> ForecastSettings \<Rightarrow> AggregationPeriod \<Rightarrow> ProductProjection" where
  "generateProductProjection z aggregation metrics settings period =
     (let historicalQuantities = map ad_totalQuantity (pa_data aggregation);
          numFuturePeriods = timeframeToPeriods (s_timeframe settings) period;
          historicalData = map (\<lambda>d. \<lparr>pp_period = ad_period d,
                                        pp_projectedDemand = Some (ad_totalQuantity d),
                                        pp_confidenceLow = Some (ad_totalQuantity d),
                                        pp_confidenceHigh = Some (ad_totalQuantity d),
                                        pp_isForecast = False\<rparr>) (pa_data aggregation);
          lastDate = pa_lastOrderDate aggregation;
          futurePeriods = generateFuturePeriods z lastDate numFuturePeriods period;
          projectedData =
            (case s_method settings of
               sma \<Rightarrow>
                 (let r = simpleMovingAverage historicalQuantities (s_periods settings)
                  in map (\<lambda>p. forecastPoint p (ma_forecast r) (ma_standardError r)
                                (length historicalQuantities) (s_confidenceLevel settings))
                       futurePeriods)
             | wma \<Rightarrow>
                 (let r = weightedMovingAverage historicalQuantities (s_periods settings)
                  in map (\<lambda>p. forecastPoint p (ma_forecast r) (ma_standardError r)
                                (length historicalQuantities) (s_confidenceLevel settings))
                       futurePeriods)
             | linear_regression \<Rightarrow>
                 (let r = linearRegressionForecast historicalQuantities numFuturePeriods
                  in map (\<lambda>i. forecastPoint (futurePeriods ! i) (rf_forecasts r ! i)
                                (rf_standardErrors r ! i)
                                (length historicalQuantities) (s_confidenceLevel settings))
                       [0..<length futurePeriods]));
          totalProjectedDemand =
            foldl (\<lambda>sum p. n_add sum (pp_projectedDemand p)) (Some 0) projectedData;
          avgProjectedDemand =
            (if length projectedData > 0
             then map_option (\<lambda>t. t / real (length projectedData)) totalProjectedDemand
             else Some 0);
          safetyStock = n_ceil (n_mul avgProjectedDemand (Some (s_safetyStockPercent settings / 100)));
          dailyDemand = m_avgDailyDemand metrics;
          leadTimeDemand = dailyDemand * s_leadTimeDays settings;
          reorderPoint = n_ceil (n_add (Some leadTimeDemand) safetyStock);
          suggestedReorderQty = n_ceil (n_add totalProjectedDemand safetyStock)
      in \<lparr>p_productId = pa_productId aggregation,
          p_productName = pa_productName aggregation,
          p_category = pa_category aggregation,
          p_historicalData = historicalData,
          p_projectedData = projectedData,
          p_totalProjectedDemand = n_round2 totalProjectedDemand,
          p_avgProjectedDemand = n_round2 avgProjectedDemand,
          p_suggestedReorderQty = suggestedReorderQty,
          p_reorderPoint = reorderPoint,
          p_safetyStock = safetyStock,
          p_confidenceLevel = s_confidenceLevel settings * 100,
          p_method = s_method settings,
          p_metrics = metrics\<rparr>)"

section \<open>Vocabulary of the properties\<close>

text \<open>
  Host time zones. A zone of constant offset \<open>c\<close> (in milliseconds; no clock changes),
  of which \<open>utc\<close> is the one of offset 0. The zone of Africa/Cairo around its clock change
  of 26 April 2024: two hours ahead of UTC until 25 April 22:00 UTC (time value
  1714082400000), which is local midnight, and three hours ahead from then on, so that
  the local times from 00:00 to 01:00 of 26 April do not exist; local time values
  before 1714093200000 (26 April 01:00) are read with the offset before the change.
  Later clock changes of that zone are left out.
\<close>

definition fixedZone :: "int \<Rightarrow> HostZone" where
  "fixedZone c = \<lparr>localTZA_utc = (\<lambda>t. c), localTZA_local = (\<lambda>t. c)\<rparr>"

definition utc :: HostZone where
  "utc = fixedZone 0"

definition cairo_2024 :: HostZone where
  "cairo_2024 =
     \<lparr>localTZA_utc = (\<lambda>t. if t < 1714082400000 then 7200000 else 10800000),
      localTZA_local = (\<lambda>t. if t < 1714093200000 then 7200000 else 10800000)\<rparr>"

text \<open>A date whose local year is one of those that \<^verbatim>\<open>new Date(year, month, date)\<close>
  reads as 1900 to 1999.\<close>

definition twoDigitYear :: "HostZone \<Rightarrow> Date \<Rightarrow> bool" where
  "twoDigitYear z t = (0 \<le> getFullYear z t \<and> getFullYear z t \<le> 99)"

text \<open>The day on which the period containing day \<open>d\<close> starts, and the day on which
  the following period starts.\<close>

definition PeriodDay :: "int \<Rightarrow> AggregationPeriod \<Rightarrow> int" where
  "PeriodDay d period = (case period of daily \<Rightarrow> d | weekly \<Rightarrow> d - (d + 3) mod 7 | monthly \<Rightarrow> MonthStart (MonthFromDay d))"

definition NextPeriodDay :: "int \<Rightarrow> AggregationPeriod \<Rightarrow> int" where
  "NextPeriodDay d period = (case period of daily \<Rightarrow> d + 1 | weekly \<Rightarrow> d + 7 | monthly \<Rightarrow> MonthStart (MonthFromDay d + 1))"

text \<open>Each element of the list is the one before it, advanced by one period.\<close>

fun consecutive :: "HostZone \<Rightarrow> AggregationPeriod \<Rightarrow> Date list \<Rightarrow> bool" where
  "consecutive z period [] = True"
| "consecutive z period [x] = True"
| "consecutive z period (x # y # ys) = (y = advance z x period \<and> consecutive z period (y # ys))"

text \<open>Two period starts that are exactly one bucket width apart: one day, seven days,
  or the local midnights of the first days of two successive calendar months.\<close>

definition oneBucketApart :: "HostZone \<Rightarrow> AggregationPeriod \<Rightarrow> Date \<Rightarrow> Date \<Rightarrow> bool" where
  "oneBucketApart z period a b =
     (case period of
        daily \<Rightarrow> b = a + msPerDay
      | weekly \<Rightarrow> b = a + 7 * msPerDay
      | monthly \<Rightarrow> a = UTC z (MakeDate (MakeDay (getFullYear z a) (getMonth z a) 1) 0)
                  \<and> b = UTC z (MakeDate (MakeDay (getFullYear z a) (getMonth z a + 1) 1) 0))"

text \<open>What the grouping loop has computed for product \<open>pid\<close> after the orders
  \<open>orders\<close>: no entry if the product has no order, and otherwise the running totals.\<close>

definition grouped :: "string \<Rightarrow> OrderRecord list \<Rightarrow> ProductAggregation option \<Rightarrow> bool" where
  "grouped pid orders r =
     (let os = filter (\<lambda>ord. o_productId ord = pid) orders in
      case r of
        None \<Rightarrow> os = []
      | Some pa \<Rightarrow> os \<noteq> []
          \<and> pa_productId pa = pid
          \<and> pa_category pa = o_category (hd os)
          \<and> pa_productName pa = o_productName (hd os)
          \<and> pa_totalOrders pa = length os
          \<and> pa_totalQuantity pa = sum_list (map o_quantity os)
          \<and> pa_firstOrderDate pa = Min (set (map o_date os))
          \<and> pa_lastOrderDate pa = Max (set (map o_date os))
          \<and> pa_data pa = [])"

text \<open>Every bucket of a period map carries its own key, and the sum of the bucket totals.\<close>

definition keyed :: "(Date \<times> AggregatedData) list \<Rightarrow> bool" where
  "keyed m = (\<forall>(k, d) \<in> set m. ad_period d = k)"

definition totals :: "(Date \<times> AggregatedData) list \<Rightarrow> real" where
  "totals m = sum_list (map (\<lambda>(k, d). ad_totalQuantity d) m)"

text \<open>The category the specification describes: that of the first order of the product
  that has one.\<close>

definition firstNonNullCategory :: "string \<Rightarrow> OrderRecord list \<Rightarrow> string option" where
  "firstNonNullCategory pid orders =
     (case filter (\<lambda>ord. o_productId ord = pid \<and> o_category ord \<noteq> None) orders of
        [] \<Rightarrow> None
      | ord # rest \<Rightarrow> o_category ord)"

text \<open>Three orders used as a concrete input: product A on 3 January 1970 at 01:00 and
  on 1 January 1970 (the first without a category), product B on 2 January.\<close>

definition order_at :: "Date \<Rightarrow> string \<Rightarrow> real \<Rightarrow> string option \<Rightarrow> OrderRecord" where
  "order_at t p q c =
     \<lparr>o_date = t, o_productId = p, o_productName = p, o_quantity = q, o_category = c,
      o_unitPrice = None, o_supplier = None\<rparr>"

definition sample_orders :: "OrderRecord list" where
  "sample_orders =
     [order_at (2 * 86400000 + 3600000) ''A'' 5 None,
      order_at 0 ''A'' 2 (Some ''tools''),
      order_at 86400000 ''B'' 4 None]"

text \<open>Three orders of one product, placed in Cairo at 10:00 local time (07:00 UTC) on
  26, 27 and 28 April 2024, with quantities 1, 2 and 4.\<close>

definition cairo_orders :: "OrderRecord list" where
  "cairo_orders =
     [order_at 1714114800000 ''A'' 1 None,
      order_at 1714201200000 ''A'' 2 None,
      order_at 1714287600000 ''A'' 4 None]"

text \<open>The interval \<open>[low, high]\<close> contains the interval \<open>[low', high']\<close>: all four bounds
  are numbers, \<open>low \<le> low'\<close> and \<open>high' \<le> high\<close>. An undefined bound (\<^verbatim>\<open>NaN\<close>) compares
  with nothing, so an interval with one contains no interval and is contained in none.\<close>

fun contains :: "number \<times> number \<Rightarrow> number \<times> number \<Rightarrow> bool" where
  "contains (Some l, Some h) (Some l', Some h') = (l \<le> l' \<and> h' \<le> h)"
| "contains (Some l, Some h) (Some l', None) = False"
| "contains (Some l, Some h) (None, b) = False"
| "contains (Some l, None) b = False"
| "contains (None, a) b = False"

text \<open>The second forecast point has the same period and demand as the first and an
  interval that contains the first's.\<close>

definition widens :: "ProjectionPoint \<Rightarrow> ProjectionPoint \<Rightarrow> bool" where
  "widens narrow wide =
     (pp_period wide = pp_period narrow
      \<and> pp_projectedDemand wide = pp_projectedDemand narrow
      \<and> contains (pp_confidenceLow wide, pp_confidenceHigh wide)
                   (pp_confidenceLow narrow, pp_confidenceHigh narrow))"

text \<open>The forecasts and the standard errors of the chosen method for the future periods,
  before any rounding, and the total the specification describes: the sum of the
  forecasts, rounded once.\<close>

definition unroundedForecasts :: "ProductAggregation \<Rightarrow> ForecastSettings \<Rightarrow> AggregationPeriod \<Rightarrow> number list" where
  "unroundedForecasts aggregation settings period =
     (let historicalQuantities = map ad_totalQuantity (pa_data aggregation);
          numFuturePeriods = timeframeToPeriods (s_timeframe settings) period
      in case s_method settings of
           sma \<Rightarrow> replicate numFuturePeriods
                    (ma_forecast (simpleMovingAverage historicalQuantities (s_periods settings)))
         | wma \<Rightarrow> replicate numFuturePeriods
                    (ma_forecast (weightedMovingAverage historicalQuantities (s_periods settings)))
         | linear_regression \<Rightarrow>
             rf_forecasts (linearRegressionForecast historicalQuantities numFuturePeriods))"

definition forecastStandardErrors :: "ProductAggregation \<Rightarrow> ForecastSettings \<Rightarrow> AggregationPeriod \<Rightarrow> number list" where
  "forecastStandardErrors aggregation settings period =
     (let historicalQuantities = map ad_totalQuantity (pa_data aggregation);
          numFuturePeriods = timeframeToPeriods (s_timeframe settings) period
      in case s_method settings of
           sma \<Rightarrow> replicate numFuturePeriods
                    (ma_standardError (simpleMovingAverage historicalQuantities (s_periods settings)))
         | wma \<Rightarrow> replicate numFuturePeriods
                    (ma_standardError (weightedMovingAverage historicalQuantities (s_periods settings)))
         | linear_regression \<Rightarrow>
             rf_standardErrors (linearRegressionForecast historicalQuantities numFuturePeriods))"


text \<open>The sum of squared residuals of the regression line and the spread of the indices
  \<open>0, \<dots>, n - 1\<close> around their mean, as \<^verbatim>\<open>linearRegressionForecast\<close> computes them.\<close>

definition residualSS :: "real list \<Rightarrow> real" where
  "residualSS values =
     sum_list (map (\<lambda>r. r * r)
       (map (\<lambda>(v, p). v - p)
         (zip values (map (\<lambda>i. predict (linearRegression values) (real i)) [0..<length values]))))"

definition xVariance :: "nat \<Rightarrow> real" where
  "xVariance n = sum_list (map (\<lambda>i. (real i - (real n - 1) / 2)\<^sup>2) [0..<n])"

text \<open>A weekly series of three buckets with quantities 3, 3, 4, its metrics and a
  moving-average configuration; a weekly series of two buckets with quantities 10, 20 and
  a regression configuration; a weekly series of two buckets with quantities 10, 16 and a
  moving average over two periods for one future week.\<close>

definition bucket_at :: "Date \<Rightarrow> real \<Rightarrow> AggregatedData" where
  "bucket_at t q =
     \<lparr>ad_period = t, ad_productId = ''A'', ad_productName = ''A'', ad_totalQuantity = q,
      ad_orderCount = 1, ad_avgQuantityPerOrder = q\<rparr>"


definition demo_metrics :: ProductMetrics where
  "demo_metrics =
     \<lparr>m_productId = ''A'', m_productName = ''A'',
      m_avgDailyDemand = 10 / 21, m_avgWeeklyDemand = 10 / 3, m_avgMonthlyDemand = 433 / 30,
      m_variance = 1 / 3, m_stdDeviation = sqrt (1 / 3),
      m_coefficientOfVariation = sqrt (1 / 3) / (10 / 3),
      m_trend = Increasing, m_trendSlope = 1 / 2, m_trendStrength = 3 / 4,
      m_seasonalityIndex = None, m_outliers = [],
      m_minDemand = 3, m_maxDemand = 4, m_medianDemand = 3\<rparr>"


definition demo_pair :: ProductAggregation where
  "demo_pair =
     \<lparr>pa_productId = ''A'', pa_productName = ''A'', pa_category = None,
      pa_data = [bucket_at (- 259200000) 10, bucket_at 345600000 20],
      pa_totalOrders = 2, pa_totalQuantity = 30,
      pa_firstOrderDate = - 259200000, pa_lastOrderDate = 345600000\<rparr>"

definition demo_regression :: ForecastSettings where
  "demo_regression =
     \<lparr>s_method = linear_regression, s_timeframe = WeekMatch 1, s_periods = 4,
      s_safetyStockPercent = 20, s_leadTimeDays = 7, s_confidenceLevel = 0.95\<rparr>"



section \<open>The calendar\<close>

lemma MonthStart_0: "MonthStart 0 = 0"
  by (simp add: MonthStart_def DayFromYear_def)

lemma MonthStart_upper: "0 \<le> k \<Longrightarrow> MonthStart k \<le> 31 * k"
proof (induction k rule: int_ge_induct)
  case base
  then show ?case by (simp add: MonthStart_0)
next
  case (step i)
  then show ?case
    using DaysInMonth_bounds(2) [of "1970 + i div 12" "i mod 12"] by (simp add: MonthStart_Suc)
qed

lemma MonthStart_upper_neg: "k \<le> 0 \<Longrightarrow> MonthStart k \<le> 28 * k"
proof (induction k rule: int_le_induct)
  case base
  then show ?case by (simp add: MonthStart_0)
next
  case (step i)
  then show ?case
    using DaysInMonth_bounds(1) [of "1970 + (i - 1) div 12" "(i - 1) mod 12"] MonthStart_Suc [of "i - 1"]
    by simp
qed

lemma MonthSearch_spec:
  "MonthStart k \<le> d \<Longrightarrow> MonthStart (MonthSearch k d) \<le> d \<and> d < MonthStart (MonthSearch k d + 1)"
proof (induction k d rule: MonthSearch.induct)
  case (1 k d)
  show ?case
  proof (cases "MonthStart (k + 1) \<le> d")
    case True
    then show ?thesis using "1.IH" by (subst (1 2) MonthSearch.simps) simp
  next
    case False
    then show ?thesis using "1.prems" by (subst (1 2) MonthSearch.simps) simp
  qed
qed

lemma MonthFromDay_spec: "MonthStart (MonthFromDay d) \<le> d" "d < MonthStart (MonthFromDay d + 1)"
proof -
  have "MonthStart (if 0 \<le> d then d div 31 else d div 28) \<le> d"
  proof (cases "0 \<le> d")
    case True
    then have "MonthStart (d div 31) \<le> 31 * (d div 31)" by (intro MonthStart_upper) simp
    also have "\<dots> \<le> d" by simp
    finally show ?thesis using True by simp
  next
    case False
    then have "MonthStart (d div 28) \<le> 28 * (d div 28)" by (intro MonthStart_upper_neg) simp
    also have "\<dots> \<le> d" by simp
    finally show ?thesis using False by simp
  qed
  then show "MonthStart (MonthFromDay d) \<le> d" "d < MonthStart (MonthFromDay d + 1)"
    unfolding MonthFromDay_def using MonthSearch_spec by blast+
qed

lemma MonthStart_mono: "j \<le> k \<Longrightarrow> MonthStart j \<le> MonthStart k"
proof (induction k rule: int_ge_induct)
  case base
  then show ?case by simp
next
  case (step i)
  then show ?case using MonthStart_less [of i] by simp
qed

lemma MonthStart_strict_mono: "j < k \<Longrightarrow> MonthStart j < MonthStart k"
  using MonthStart_mono [of "j + 1" k] MonthStart_less [of j] by simp

lemma MonthFromDay_unique:
  assumes "MonthStart k \<le> d" "d < MonthStart (k + 1)"
  shows "MonthFromDay d = k"
proof (rule ccontr)
  assume ne: "MonthFromDay d \<noteq> k"
  show False
  proof (cases "MonthFromDay d < k")
    case True
    then have "MonthStart (MonthFromDay d + 1) \<le> MonthStart k" by (intro MonthStart_mono) simp
    then show False using MonthFromDay_spec(2) [of d] assms(1) by simp
  next
    case False
    then have "MonthStart (k + 1) \<le> MonthStart (MonthFromDay d)" using ne by (intro MonthStart_mono) simp
    then show False using MonthFromDay_spec(1) [of d] assms(2) by simp
  qed
qed

lemma MonthFromDay_MonthStart: "MonthFromDay (MonthStart k) = k"
  by (rule MonthFromDay_unique) (simp_all add: MonthStart_less)

lemma MonthFromDay_mono: "d \<le> e \<Longrightarrow> MonthFromDay d \<le> MonthFromDay e"
proof (rule ccontr)
  assume de: "d \<le> e" and "\<not> MonthFromDay d \<le> MonthFromDay e"
  then have "MonthStart (MonthFromDay e + 1) \<le> MonthStart (MonthFromDay d)"
    by (intro MonthStart_mono) simp
  then show False using MonthFromDay_spec(2) [of e] MonthFromDay_spec(1) [of d] de by simp
qed

section \<open>Period starts and the period loop in a zone of constant offset\<close>

text \<open>
  Where the host's offset from UTC is a constant \<open>c\<close>, the start of the period of a date
  is a matter of day numbers: it is local midnight of the day \<open>PeriodDay\<close> of the date's
  local day (\<open>startOf\<close>), provided the date's local year is not one of 0 to 99.
\<close>

definition startOf :: "int \<Rightarrow> Date \<Rightarrow> AggregationPeriod \<Rightarrow> Date" where
  "startOf c t period = PeriodDay (Day (t + c)) period * msPerDay - c"

lemma LocalTime_fixed: "LocalTime (fixedZone c) t = t + c"
  by (simp add: LocalTime_def fixedZone_def)

lemma UTC_fixed: "UTC (fixedZone c) t = t - c"
  by (simp add: UTC_def fixedZone_def)

lemma month_index: "12 * (YearFromTime t - 1970) + MonthFromTime t = MonthFromDay (Day t)"
  by (simp add: YearFromTime_def MonthFromTime_def)

lemma split_time: "Day t * msPerDay + TimeWithinDay t = t"
  by (simp add: Day_def TimeWithinDay_def)

lemma setDate_shift: "setDate (fixedZone c) t (getDate (fixedZone c) t + n) = t + n * msPerDay"
proof -
  have "setDate (fixedZone c) t (getDate (fixedZone c) t + n)
      = (Day (t + c) + n) * msPerDay + TimeWithinDay (t + c) - c"
    unfolding setDate_def Let_def LocalTime_fixed UTC_fixed MakeDate_def MakeDay_def month_index getDate_def
    by (simp add: DateFromTime_def)
  then show ?thesis
    using split_time [of "t + c"] by (simp add: algebra_simps)
qed

lemma setMonth_next:
  "setMonth (fixedZone c) t (getMonth (fixedZone c) t + 1) =
     t + (MonthStart (MonthFromDay (Day (t + c)) + 1) - MonthStart (MonthFromDay (Day (t + c)))) * msPerDay"
proof -
  have e: "12 * (YearFromTime (t + c) - 1970) + (MonthFromTime (t + c) + 1) = MonthFromDay (Day (t + c)) + 1"
    using month_index [of "t + c"] by simp
  have "setMonth (fixedZone c) t (getMonth (fixedZone c) t + 1) =
      (MonthStart (MonthFromDay (Day (t + c)) + 1) + DateFromTime (t + c) - 1) * msPerDay
        + TimeWithinDay (t + c) - c"
    unfolding setMonth_def Let_def LocalTime_fixed UTC_fixed MakeDate_def MakeDay_def getMonth_def e
    by (rule refl)
  then show ?thesis
    using split_time [of "t + c"] by (simp add: DateFromTime_def algebra_simps)
qed

lemma advance_greater: "current < advance (fixedZone c) current period"
proof (cases period)
  case daily
  then show ?thesis by (simp add: advance_def setDate_shift msPerDay_def)
next
  case weekly
  then show ?thesis by (simp add: advance_def setDate_shift msPerDay_def)
next
  case monthly
  have "0 < (MonthStart (MonthFromDay (Day (current + c)) + 1) - MonthStart (MonthFromDay (Day (current + c)))) * msPerDay"
    using MonthStart_less [of "MonthFromDay (Day (current + c))"] by (simp add: msPerDay_def)
  then show ?thesis using monthly by (simp add: advance_def setMonth_next)
qed

text \<open>The periods that the loop pushes in such a zone, as a total function: each
  iteration moves \<open>current\<close> forward, so the loop returns (lemma \<open>loop_fixed\<close>).\<close>

function fixedPeriods :: "int \<Rightarrow> Date \<Rightarrow> Date \<Rightarrow> AggregationPeriod \<Rightarrow> Date list" where
  "fixedPeriods c current endStart period =
     (if current \<le> endStart
      then current # fixedPeriods c (advance (fixedZone c) current period) endStart period
      else [])"
  by pat_completeness auto
termination
proof (relation "measure (\<lambda>(c, current, endStart, period). nat (endStart + 1 - current))")
  show "wf (measure (\<lambda>(c, current, endStart, period). nat (endStart + 1 - current)))" by simp
next
  fix c :: int and current endStart :: Date and period :: AggregationPeriod
  assume "current \<le> endStart"
  then show "((c, advance (fixedZone c) current period, endStart, period), (c, current, endStart, period))
      \<in> measure (\<lambda>(c, current, endStart, period). nat (endStart + 1 - current))"
    using advance_greater [of current c period] by simp
qed

declare fixedPeriods.simps [simp del]

lemma loop_fixed:
  "generatePeriods_loop (fixedZone c) period endStart current periods
     = Some (periods @ fixedPeriods c current endStart period)"
proof (induction c current endStart period arbitrary: periods rule: fixedPeriods.induct)
  case (1 c current endStart period)
  show ?case
  proof (cases "current \<le> endStart")
    case True
    then show ?thesis
      using "1.IH" [OF True, of "periods @ [current]"]
      by (subst generatePeriods_loop.simps, subst fixedPeriods.simps) simp
  next
    case False
    then show ?thesis
      by (subst generatePeriods_loop.simps, subst fixedPeriods.simps) simp
  qed
qed

lemma Day_midnight: "Day (d * msPerDay) = d"
  by (simp add: Day_def msPerDay_def)

lemma Day_mono: "a \<le> b \<Longrightarrow> Day a \<le> Day b"
  by (simp add: Day_def msPerDay_def zdiv_mono1)

lemma newDate_fixed:
  "\<not> (0 \<le> year \<and> year \<le> 99)
     \<Longrightarrow> newDate (fixedZone c) year month dt = (MonthStart (12 * (year - 1970) + month) + dt - 1) * msPerDay - c"
  by (auto simp add: newDate_def Let_def UTC_fixed MakeDate_def MakeDay_def)

lemma newDate_local:
  assumes "\<not> (0 \<le> YearFromTime lt \<and> YearFromTime lt \<le> 99)"
  shows "newDate (fixedZone c) (YearFromTime lt) (MonthFromTime lt) dt
     = (MonthStart (MonthFromDay (Day lt)) + dt - 1) * msPerDay - c"
  using newDate_fixed [OF assms, of c "MonthFromTime lt" dt] unfolding month_index .

lemma getPeriodStart_daily:
  assumes "\<not> twoDigitYear (fixedZone c) t"
  shows "getPeriodStart (fixedZone c) t daily = Day (t + c) * msPerDay - c"
proof -
  have y: "\<not> (0 \<le> YearFromTime (t + c) \<and> YearFromTime (t + c) \<le> 99)"
    using assms by (simp add: twoDigitYear_def getFullYear_def LocalTime_fixed)
  show ?thesis
    unfolding getPeriodStart_def Let_def getFullYear_def getMonth_def getDate_def LocalTime_fixed
    by (simp add: newDate_local [OF y] DateFromTime_def)
qed

lemma getPeriodStart_weekly:
  assumes "\<not> twoDigitYear (fixedZone c) t"
  shows "getPeriodStart (fixedZone c) t weekly = (Day (t + c) - (Day (t + c) + 3) mod 7) * msPerDay - c"
proof -
  let ?d = "Day (t + c)"
  have y: "\<not> (0 \<le> YearFromTime (t + c) \<and> YearFromTime (t + c) \<le> 99)"
    using assms by (simp add: twoDigitYear_def getFullYear_def LocalTime_fixed)
  have "(?d + 3) mod 7 = (if WeekDay (t + c) = 0 then 6 else WeekDay (t + c) - 1)"
  proof -
    define q r where "q = (?d + 4) div 7" and "r = (?d + 4) mod 7"
    have r: "0 \<le> r" "r < 7" and e: "?d + 4 = 7 * q + r"
      by (simp_all add: q_def r_def)
    show ?thesis
    proof (cases "r = 0")
      case True
      then have e3: "?d + 3 = 7 * (q - 1) + 6" using e by simp
      have "(?d + 3) mod 7 = 6" unfolding e3 by (rule div_mod_decomp) simp_all
      then show ?thesis using True by (simp add: WeekDay_def r_def)
    next
      case False
      then have e3: "?d + 3 = 7 * q + (r - 1)" and r1: "0 \<le> r - 1" "r - 1 < 7" using e r by simp_all
      have "(?d + 3) mod 7 = r - 1" unfolding e3 by (rule div_mod_decomp) (rule r1)+
      then show ?thesis using False by (simp add: WeekDay_def r_def)
    qed
  qed
  then have "WeekDay (t + c) = 0 \<Longrightarrow> (?d + 3) mod 7 = 6"
    "WeekDay (t + c) \<noteq> 0 \<Longrightarrow> (?d + 3) mod 7 = WeekDay (t + c) - 1"
    by simp_all
  then show ?thesis
    unfolding getPeriodStart_def Let_def getFullYear_def getMonth_def getDate_def getDay_def LocalTime_fixed
    by (auto simp add: newDate_local [OF y] DateFromTime_def)
qed

lemma getPeriodStart_monthly:
  assumes "\<not> twoDigitYear (fixedZone c) t"
  shows "getPeriodStart (fixedZone c) t monthly = MonthStart (MonthFromDay (Day (t + c))) * msPerDay - c"
proof -
  have y: "\<not> (0 \<le> YearFromTime (t + c) \<and> YearFromTime (t + c) \<le> 99)"
    using assms by (simp add: twoDigitYear_def getFullYear_def LocalTime_fixed)
  show ?thesis
    unfolding getPeriodStart_def Let_def getFullYear_def getMonth_def getDate_def LocalTime_fixed
    by (simp add: newDate_local [OF y])
qed

lemma getPeriodStart_fixed:
  "\<not> twoDigitYear (fixedZone c) t \<Longrightarrow> getPeriodStart (fixedZone c) t period = startOf c t period"
  by (cases period)
    (simp_all add: startOf_def PeriodDay_def getPeriodStart_daily getPeriodStart_weekly getPeriodStart_monthly)

lemma week_start: "d - (d + 3) mod 7 = 7 * ((d + 3) div 7) - (3::int)"
  using mult_div_mod_eq [of 7 "d + 3"] by linarith

lemma PeriodDay_mono: "a \<le> b \<Longrightarrow> PeriodDay a period \<le> PeriodDay b period"
proof (cases period)
  case daily
  then show "a \<le> b \<Longrightarrow> ?thesis" by (simp add: PeriodDay_def)
next
  case weekly
  assume "a \<le> b"
  then have "(a + 3) div 7 \<le> (b + 3) div 7" by (intro zdiv_mono1) simp_all
  then have "a - (a + 3) mod 7 \<le> b - (b + 3) mod 7" by (simp add: week_start)
  then show ?thesis using weekly by (simp add: PeriodDay_def)
next
  case monthly
  assume "a \<le> b"
  then show ?thesis using monthly by (simp add: PeriodDay_def MonthFromDay_mono MonthStart_mono)
qed

lemma PeriodDay_idem: "PeriodDay (PeriodDay d period) period = PeriodDay d period"
proof (cases period)
  case weekly
  have "(d - (d + 3) mod 7 + 3) mod 7 = 0" by (simp add: week_start)
  then show ?thesis using weekly by (simp add: PeriodDay_def)
qed (simp_all add: PeriodDay_def MonthFromDay_MonthStart)

lemma startOf_mono: "a \<le> b \<Longrightarrow> startOf c a period \<le> startOf c b period"
  by (simp add: startOf_def PeriodDay_mono Day_mono msPerDay_def)

lemma startOf_idem: "startOf c (startOf c t period) period = startOf c t period"
  by (simp add: startOf_def PeriodDay_idem Day_midnight)

lemma advance_period_start:
  "advance (fixedZone c) (PeriodDay d period * msPerDay - c) period
     = NextPeriodDay (PeriodDay d period) period * msPerDay - c"
proof (cases period)
  case daily
  then show ?thesis by (simp add: advance_def setDate_shift NextPeriodDay_def distrib_right)
next
  case weekly
  then show ?thesis by (simp add: advance_def setDate_shift NextPeriodDay_def distrib_right)
next
  case monthly
  then show ?thesis
    by (simp add: advance_def setMonth_next NextPeriodDay_def PeriodDay_def Day_midnight MonthFromDay_MonthStart left_diff_distrib)
qed

lemma NextPeriodDay_start: "PeriodDay (NextPeriodDay (PeriodDay d period) period) period = NextPeriodDay (PeriodDay d period) period"
proof (cases period)
  case weekly
  have "(d - (d + 3) mod 7 + 7 + 3) mod 7 = 0" by (simp add: week_start)
  then show ?thesis using weekly by (simp add: PeriodDay_def NextPeriodDay_def)
qed (simp_all add: PeriodDay_def NextPeriodDay_def MonthFromDay_MonthStart)

lemma NextPeriodDay_least:
  assumes "PeriodDay d period < PeriodDay e period"
  shows "NextPeriodDay (PeriodDay d period) period \<le> PeriodDay e period"
proof (cases period)
  case daily
  then show ?thesis using assms by (simp add: PeriodDay_def NextPeriodDay_def)
next
  case weekly
  have "d - (d + 3) mod 7 < e - (e + 3) mod 7 \<Longrightarrow> d - (d + 3) mod 7 + 7 \<le> e - (e + 3) mod 7"
    by (simp add: week_start)
  then show ?thesis using assms weekly by (simp add: PeriodDay_def NextPeriodDay_def)
next
  case monthly
  then have "MonthStart (MonthFromDay d) < MonthStart (MonthFromDay e)"
    using assms by (simp add: PeriodDay_def)
  then have "MonthFromDay d < MonthFromDay e"
    using MonthStart_mono [of "MonthFromDay e" "MonthFromDay d"] by (cases "MonthFromDay d < MonthFromDay e") auto
  then have "MonthStart (MonthFromDay d + 1) \<le> MonthStart (MonthFromDay e)"
    by (intro MonthStart_mono) simp
  then show ?thesis using monthly by (simp add: PeriodDay_def NextPeriodDay_def MonthFromDay_MonthStart)
qed

lemma start_form: "startOf c s period = s \<Longrightarrow> s = PeriodDay (Day (s + c)) period * msPerDay - c"
  by (simp add: startOf_def)

lemma advance_is_start:
  assumes "startOf c s period = s"
  shows "startOf c (advance (fixedZone c) s period) period = advance (fixedZone c) s period"
proof -
  have "advance (fixedZone c) s period = NextPeriodDay (PeriodDay (Day (s + c)) period) period * msPerDay - c"
    using advance_period_start [of c "Day (s + c)" period] start_form [OF assms] by simp
  then show ?thesis
    by (simp add: startOf_def Day_midnight NextPeriodDay_start)
qed

lemma advance_least:
  assumes s: "startOf c s period = s" and u: "startOf c u period = u" and "s < u"
  shows "advance (fixedZone c) s period \<le> u"
proof -
  have a: "advance (fixedZone c) s period = NextPeriodDay (PeriodDay (Day (s + c)) period) period * msPerDay - c"
    using advance_period_start [of c "Day (s + c)" period] start_form [OF s] by simp
  have "PeriodDay (Day (s + c)) period * msPerDay - c < PeriodDay (Day (u + c)) period * msPerDay - c"
    using start_form [OF s] start_form [OF u] \<open>s < u\<close> by simp
  then have "PeriodDay (Day (s + c)) period < PeriodDay (Day (u + c)) period"
    by (simp add: msPerDay_def)
  then have "NextPeriodDay (PeriodDay (Day (s + c)) period) period \<le> PeriodDay (Day (u + c)) period"
    by (rule NextPeriodDay_least)
  then have "advance (fixedZone c) s period \<le> PeriodDay (Day (u + c)) period * msPerDay - c"
    unfolding a by (simp add: msPerDay_def)
  then show ?thesis using start_form [OF u] by simp
qed

lemma loop_lower: "x \<in> set (fixedPeriods off c e period) \<Longrightarrow> c \<le> x \<and> x \<le> e"
proof (induction off c e period rule: fixedPeriods.induct)
  case (1 off current endStart period)
  show ?case
  proof (cases "current \<le> endStart")
    case True
    then have "x = current \<or> x \<in> set (fixedPeriods off (advance (fixedZone off) current period) endStart period)"
      using "1.prems" by (subst (asm) fixedPeriods.simps) simp
    then show ?thesis
      using "1.IH" [OF True] True advance_greater [of current off period] by auto
  next
    case False
    then show ?thesis using "1.prems" by (subst (asm) fixedPeriods.simps) simp
  qed
qed

lemma loop_sorted: "sorted_wrt (<) (fixedPeriods off c e period)"
proof (induction off c e period rule: fixedPeriods.induct)
  case (1 off current endStart period)
  show ?case
  proof (cases "current \<le> endStart")
    case True
    have "\<forall>x \<in> set (fixedPeriods off (advance (fixedZone off) current period) endStart period). current < x"
      using loop_lower [of _ off "advance (fixedZone off) current period" endStart period] advance_greater [of current off period]
      by fastforce
    then show ?thesis
      using "1.IH" [OF True] True by (subst fixedPeriods.simps) simp
  next
    case False
    then show ?thesis by (subst fixedPeriods.simps) simp
  qed
qed

lemma loop_member:
  "startOf off c period = c \<Longrightarrow> startOf off u period = u \<Longrightarrow> c \<le> u \<Longrightarrow> u \<le> e
     \<Longrightarrow> u \<in> set (fixedPeriods off c e period)"
proof (induction off c e period rule: fixedPeriods.induct)
  case (1 off current endStart period)
  have le: "current \<le> endStart" using "1.prems" by simp
  show ?case
  proof (cases "u = current")
    case True
    then show ?thesis using le by (subst fixedPeriods.simps) simp
  next
    case False
    then have "advance (fixedZone off) current period \<le> u"
      using "1.prems" by (intro advance_least) simp_all
    then have "u \<in> set (fixedPeriods off (advance (fixedZone off) current period) endStart period)"
      using "1.IH" [OF le] "1.prems" advance_is_start by simp
    then show ?thesis using le by (subst fixedPeriods.simps) simp
  qed
qed

lemma loop_consecutive: "consecutive (fixedZone off) period (fixedPeriods off c e period)"
proof (induction off c e period rule: fixedPeriods.induct)
  case (1 off current endStart period)
  show ?case
  proof (cases "current \<le> endStart")
    case True
    show ?thesis
    proof (cases "advance (fixedZone off) current period \<le> endStart")
      case a: True
      have "fixedPeriods off (advance (fixedZone off) current period) endStart period
            = advance (fixedZone off) current period # fixedPeriods off (advance (fixedZone off) (advance (fixedZone off) current period) period) endStart period"
        using a by (subst fixedPeriods.simps) simp
      then show ?thesis
        using "1.IH" [OF True] True by (subst fixedPeriods.simps) simp
    next
      case a: False
      then have "fixedPeriods off (advance (fixedZone off) current period) endStart period = []"
        by (subst fixedPeriods.simps) simp
      then show ?thesis using True by (subst fixedPeriods.simps) simp
    qed
  next
    case False
    then show ?thesis by (subst fixedPeriods.simps) simp
  qed
qed

lemma loop_all_starts:
  "startOf off c period = c \<Longrightarrow> x \<in> set (fixedPeriods off c e period) \<Longrightarrow> startOf off x period = x"
proof (induction off c e period rule: fixedPeriods.induct)
  case (1 off current endStart period)
  show ?case
  proof (cases "current \<le> endStart")
    case True
    then have "x = current \<or> x \<in> set (fixedPeriods off (advance (fixedZone off) current period) endStart period)"
      using "1.prems" by (subst (asm) fixedPeriods.simps) simp
    then show ?thesis
      using "1.IH" [OF True] "1.prems"(1) advance_is_start by auto
  next
    case False
    then show ?thesis using "1.prems" by (subst (asm) fixedPeriods.simps) simp
  qed
qed

lemma loop_hd: "c \<le> e \<Longrightarrow> fixedPeriods off c e period \<noteq> [] \<and> hd (fixedPeriods off c e period) = c"
  by (subst (1 2) fixedPeriods.simps) simp

lemma loop_last:
  "startOf off c period = c \<Longrightarrow> startOf off e period = e \<Longrightarrow> c \<le> e
     \<Longrightarrow> last (fixedPeriods off c e period) = e"
proof (induction off c e period rule: fixedPeriods.induct)
  case (1 off current endStart period)
  have le: "current \<le> endStart" using "1.prems" by simp
  show ?case
  proof (cases "current = endStart")
    case True
    then have "fixedPeriods off (advance (fixedZone off) current period) endStart period = []"
      using advance_greater [of current off period] by (subst fixedPeriods.simps) simp
    then show ?thesis using le True by (subst fixedPeriods.simps) simp
  next
    case False
    then have a: "advance (fixedZone off) current period \<le> endStart"
      using "1.prems" by (intro advance_least) simp_all
    then have "fixedPeriods off (advance (fixedZone off) current period) endStart period \<noteq> []"
      using loop_hd by blast
    moreover have "last (fixedPeriods off (advance (fixedZone off) current period) endStart period) = endStart"
      using "1.IH" [OF le] "1.prems" advance_is_start a by simp
    ultimately show ?thesis using le by (subst fixedPeriods.simps) simp
  qed
qed

section \<open>The grouping loop\<close>

lemma map_of_groupOrder:
  "map_of (groupOrder m x) pid =
     (if pid = o_productId x then map_of (groupOrder m x) (o_productId x) else map_of m pid)"
  by (simp add: groupOrder_def Let_def update_conv')

lemma grouped_other:
  "pid \<noteq> o_productId x \<Longrightarrow> grouped pid (xs @ [x]) r = grouped pid xs r"
  by (simp add: grouped_def)

lemma grouped_new:
  assumes "grouped (o_productId x) xs None" "map_of m (o_productId x) = None"
  shows "grouped (o_productId x) (xs @ [x]) (map_of (groupOrder m x) (o_productId x))"
  using assms
  by (simp add: grouped_def groupOrder_def Let_def update_conv' newProductAgg_def)

lemma grouped_found:
  assumes "grouped (o_productId x) xs (Some pa)" "map_of m (o_productId x) = Some pa"
  shows "grouped (o_productId x) (xs @ [x]) (map_of (groupOrder m x) (o_productId x))"
proof -
  let ?os = "filter (\<lambda>ord. o_productId ord = o_productId x) xs"
  let ?S = "o_date ` {xa \<in> set xs. o_productId xa = o_productId x}"
  have ne: "?os \<noteq> []" using assms(1) by (simp add: grouped_def Let_def)
  then have "set ?os \<noteq> {}" by (simp only: set_empty not_False_eq_True)
  then have fin: "finite ?S" "?S \<noteq> {}" by auto
  have mn: "Min (insert (o_date x) ?S) = min (o_date x) (Min ?S)"
    using fin by (rule Min_insert)
  have mx: "Max (insert (o_date x) ?S) = max (o_date x) (Max ?S)"
    using fin by (rule Max_insert)
  have le: "Min ?S \<le> Max ?S"
    using fin by (simp add: Min_le_iff)
  show ?thesis
    using assms ne le
    by (auto simp add: grouped_def groupOrder_def Let_def update_conv' mn mx min_def max_def simp del: Min_insert Max_insert)
qed

lemma distinct_groupOrder: "distinct (map fst m) \<Longrightarrow> distinct (map fst (groupOrder m x))"
  by (simp add: groupOrder_def Let_def distinct_update)

lemma group_inv:
  "distinct (map fst (foldl groupOrder [] orders))
   \<and> (\<forall>pid. grouped pid orders (map_of (foldl groupOrder [] orders) pid))"
proof (induction orders rule: rev_induct)
  case Nil
  then show ?case by (simp add: grouped_def)
next
  case (snoc x xs)
  let ?m = "foldl groupOrder [] xs"
  have d: "distinct (map fst (groupOrder ?m x))"
    using snoc by (intro distinct_groupOrder) simp
  have "grouped pid (xs @ [x]) (map_of (groupOrder ?m x) pid)" for pid
  proof (cases "pid = o_productId x")
    case False
    then show ?thesis using snoc map_of_groupOrder [of ?m x pid] by (simp add: grouped_other)
  next
    case True
    show ?thesis
    proof (cases "map_of ?m (o_productId x)")
      case None
      then have "grouped (o_productId x) xs None" using snoc by metis
      then show ?thesis using grouped_new None True by simp
    next
      case (Some pa)
      then have "grouped (o_productId x) xs (Some pa)" using snoc by metis
      then show ?thesis using grouped_found Some True by simp
    qed
  qed
  then show ?case using d by simp
qed

section \<open>The bucket loops\<close>

lemma update_absent: "k \<notin> fst ` set al \<Longrightarrow> AList.update k v al = al @ [(k, v)]"
  by (induction al) auto

lemma init_buckets:
  "distinct ks \<Longrightarrow> set ks \<inter> fst ` set m = {}
     \<Longrightarrow> foldl (\<lambda>m pd. AList.update pd (f pd) m) m ks = m @ map (\<lambda>pd. (pd, f pd)) ks"
proof (induction ks arbitrary: m)
  case Nil
  then show ?case by simp
next
  case (Cons k ks)
  have "k \<notin> fst ` set m" using Cons.prems by auto
  then have u: "AList.update k (f k) m = m @ [(k, f k)]" by (rule update_absent)
  have "set ks \<inter> fst ` set (m @ [(k, f k)]) = {}" using Cons.prems by auto
  then show ?case using Cons.IH [of "m @ [(k, f k)]"] Cons.prems u by simp
qed

lemma addOrder_keys: "map fst (addOrder z period m x) = map fst m"
proof (cases "map_of m (getPeriodStart z (o_date x) period)")
  case None
  then show ?thesis by (simp add: addOrder_def)
next
  case (Some d)
  then have "(getPeriodStart z (o_date x) period, d) \<in> set m" by (rule map_of_SomeD)
  then have "getPeriodStart z (o_date x) period \<in> fst ` set m" by force
  then show ?thesis using Some by (simp add: addOrder_def update_keys)
qed

lemma keyed_update:
  "keyed m \<Longrightarrow> ad_period d = k \<Longrightarrow> keyed (AList.update k d m)"
  unfolding keyed_def by (induction m) auto

lemma addOrder_keyed: "keyed m \<Longrightarrow> keyed (addOrder z period m x)"
proof (cases "map_of m (getPeriodStart z (o_date x) period)")
  case None
  then show "keyed m \<Longrightarrow> ?thesis" by (simp add: addOrder_def)
next
  case (Some d)
  assume k: "keyed m"
  have "(getPeriodStart z (o_date x) period, d) \<in> set m" using Some by (rule map_of_SomeD)
  then have "ad_period d = getPeriodStart z (o_date x) period" using k by (auto simp: keyed_def)
  then show ?thesis using Some k by (simp add: addOrder_def keyed_update)
qed

lemma totals_update:
  "distinct (map fst m) \<Longrightarrow> map_of m k = Some d
     \<Longrightarrow> totals (AList.update k d' m) = totals m - ad_totalQuantity d + ad_totalQuantity d'"
proof (induction m)
  case Nil
  then show ?case by simp
next
  case (Cons p m)
  show ?case
  proof (cases "fst p = k")
    case True
    then show ?thesis using Cons.prems by (cases p) (simp add: totals_def)
  next
    case False
    then have "map_of m k = Some d" using Cons.prems by (cases p) (simp split: if_splits)
    then show ?thesis using Cons.IH Cons.prems False by (cases p) (simp add: totals_def)
  qed
qed

lemma addOrder_totals:
  "distinct (map fst m) \<Longrightarrow>
     totals (addOrder z period m x) =
       totals m + (if getPeriodStart z (o_date x) period \<in> set (map fst m) then o_quantity x else 0)"
proof (cases "map_of m (getPeriodStart z (o_date x) period)")
  case None
  then have "getPeriodStart z (o_date x) period \<notin> set (map fst m)"
    by (simp add: map_of_eq_None_iff)
  then show ?thesis using None by (simp add: addOrder_def)
next
  case (Some d)
  assume dist: "distinct (map fst m)"
  have "getPeriodStart z (o_date x) period \<in> set (map fst m)"
    using Some by (metis map_of_eq_None_iff option.distinct(1) set_map)
  then show ?thesis
    using Some totals_update [OF dist Some] by (simp add: addOrder_def)
qed

lemma fold_addOrder:
  "distinct (map fst m) \<Longrightarrow>
     map fst (foldl (addOrder z period) m os) = map fst m
     \<and> (keyed m \<longrightarrow> keyed (foldl (addOrder z period) m os))
     \<and> totals (foldl (addOrder z period) m os) =
         totals m + sum_list (map o_quantity
                       (filter (\<lambda>ord. getPeriodStart z (o_date ord) period \<in> set (map fst m)) os))"
proof (induction os arbitrary: m)
  case Nil
  then show ?case by simp
next
  case (Cons x os)
  have d: "distinct (map fst (addOrder z period m x))" using Cons.prems by (simp add: addOrder_keys)
  show ?case
    using Cons.IH [OF d] Cons.prems
    by (simp add: addOrder_keys addOrder_keyed addOrder_totals del: set_map)
qed

lemma withAverage_fields:
  "ad_totalQuantity (withAverage d) = ad_totalQuantity d" "ad_period (withAverage d) = ad_period d"
  by (simp_all add: withAverage_def)

lemma keyed_periods: "keyed m \<Longrightarrow> map ad_period (map withAverage (map snd m)) = map fst m"
  by (induction m) (auto simp: keyed_def withAverage_fields)

lemma totals_data: "sum_list (map ad_totalQuantity (map withAverage (map snd m))) = totals m"
  by (induction m) (auto simp: totals_def withAverage_fields)

section \<open>One product's series\<close>

text \<open>What the body of the second loop makes of the periods it is given, in any time zone:
  the fields of the grouping loop are kept, and if the periods are strictly increasing
  the buckets are exactly those periods, in that order. The bucket totals add up to the
  quantities of those orders whose period start is among the periods.\<close>

lemma fillPeriods_fields:
  assumes "grouped pid orders (Some pa)"
  shows "pa_totalQuantity (fillPeriods z orders period pid pa ks)
           = sum_list (map o_quantity (filter (\<lambda>ord. o_productId ord = pid) orders))"
    and "pa_category (fillPeriods z orders period pid pa ks)
           = o_category (hd (filter (\<lambda>ord. o_productId ord = pid) orders))"
    and "pa_firstOrderDate (fillPeriods z orders period pid pa ks)
           = Min (set (map o_date (filter (\<lambda>ord. o_productId ord = pid) orders)))"
    and "pa_lastOrderDate (fillPeriods z orders period pid pa ks)
           = Max (set (map o_date (filter (\<lambda>ord. o_productId ord = pid) orders)))"
  using assms by (simp_all add: grouped_def Let_def fillPeriods_def)

lemma fillPeriods_data:
  fixes period :: AggregationPeriod and orders :: "OrderRecord list" and pid :: string
    and z :: HostZone and pa :: ProductAggregation
  assumes sorted: "sorted_wrt (<) ks"
  defines "os \<equiv> filter (\<lambda>ord. o_productId ord = pid) orders"
  defines "r \<equiv> fillPeriods z orders period pid pa ks"
  shows "map ad_period (pa_data r) = ks"
    and "sum_list (map ad_totalQuantity (pa_data r))
           = sum_list (map o_quantity (filter (\<lambda>ord. getPeriodStart z (o_date ord) period \<in> set ks) os))"
proof -
  let ?ini = "map (\<lambda>pd. (pd, emptyBucket pd pid pa)) ks"
  let ?m = "foldl (addOrder z period) ?ini os"
  have dist: "distinct ks" using sorted by (simp add: strict_sorted_iff)
  have init: "foldl (\<lambda>m pd. AList.update pd (emptyBucket pd pid pa) m) [] ks = ?ini"
    using init_buckets [OF dist, of "[]" "\<lambda>pd. emptyBucket pd pid pa"] by simp
  have keys0: "map fst ?ini = ks" by (simp add: comp_def)
  have keyed0: "keyed ?ini" by (auto simp: keyed_def emptyBucket_def)
  have totals0: "totals ?ini = 0" by (simp add: totals_def comp_def emptyBucket_def)
  have d0: "distinct (map fst ?ini)" using dist keys0 by simp
  have keys: "map fst ?m = ks" and keyed: "keyed ?m"
    and tot: "totals ?m = sum_list (map o_quantity
                (filter (\<lambda>ord. getPeriodStart z (o_date ord) period \<in> set ks) os))"
    using fold_addOrder [OF d0, of z period os] keyed0 totals0 unfolding keys0 by simp_all
  have per: "map ad_period (map withAverage (map snd ?m)) = ks"
    by (rule trans [OF keyed_periods [OF keyed] keys])
  have "sorted (map ad_period (map withAverage (map snd ?m)))"
    unfolding per using sorted by (simp add: strict_sorted_iff)
  then have srt: "sort_key ad_period (map withAverage (map snd ?m)) = map withAverage (map snd ?m)"
    by (rule sort_key_id_if_sorted)
  have r: "r = pa\<lparr>pa_data := map withAverage (map snd ?m)\<rparr>"
    unfolding r_def fillPeriods_def Let_def os_def [symmetric] init srt ..
  show "map ad_period (pa_data r) = ks" using per by (simp add: r)
  show "sum_list (map ad_totalQuantity (pa_data r))
           = sum_list (map o_quantity (filter (\<lambda>ord. getPeriodStart z (o_date ord) period \<in> set ks) os))"
    using totals_data [of ?m] tot by (simp add: r)
qed

text \<open>The entries of the result, in any time zone.\<close>

lemma those_keys:
  "those (map (\<lambda>(k, v). map_option (Pair k) (g k v)) m) = Some r \<Longrightarrow> map fst r = map fst m"
proof (induction m arbitrary: r)
  case Nil
  then show ?case by simp
next
  case (Cons x m)
  obtain k v where x: "x = (k, v)" by (cases x)
  from Cons.prems obtain s r' where "g k v = Some s"
    and "those (map (\<lambda>(k, v). map_option (Pair k) (g k v)) m) = Some r'" and "r = (k, s) # r'"
    by (auto simp add: x split: option.splits)
  then show ?case using Cons.IH [of r'] by (simp add: x)
qed

lemma those_entry:
  "those (map (\<lambda>(k, v). map_option (Pair k) (g k v)) m) = Some r \<Longrightarrow> (k, s) \<in> set r
     \<Longrightarrow> \<exists>v. (k, v) \<in> set m \<and> g k v = Some s"
proof (induction m arbitrary: r)
  case Nil
  then show ?case by simp
next
  case (Cons x m)
  obtain k' v' where x: "x = (k', v')" by (cases x)
  from Cons.prems(1) obtain s' r' where h: "g k' v' = Some s'"
    and t: "those (map (\<lambda>(k, v). map_option (Pair k) (g k v)) m) = Some r'" and r: "r = (k', s') # r'"
    by (auto simp add: x split: option.splits)
  show ?case
  proof (cases "(k, s) = (k', s')")
    case True
    then show ?thesis using h by (auto simp add: x)
  next
    case False
    then have "(k, s) \<in> set r'" using Cons.prems(2) r by auto
    then show ?thesis using Cons.IH [OF t] by auto
  qed
qed

lemma those_defined:
  "(\<And>k v. (k, v) \<in> set m \<Longrightarrow> g k v \<noteq> None)
     \<Longrightarrow> \<exists>r. those (map (\<lambda>(k, v). map_option (Pair k) (g k v)) m) = Some r"
proof (induction m)
  case Nil
  then show ?case by simp
next
  case (Cons x m)
  obtain k v where x: "x = (k, v)" by (cases x)
  obtain s where "g k v = Some s" using Cons.prems [of k v] by (auto simp add: x)
  moreover obtain r where "those (map (\<lambda>(k, v). map_option (Pair k) (g k v)) m) = Some r"
    using Cons.IH Cons.prems by auto
  ultimately show ?case by (simp add: x)
qed

lemma aggregate_entry:
  assumes "aggregateOrderData z orders period = Some result" "(pid, series) \<in> set result"
  shows "\<exists>pa ks. grouped pid orders (Some pa)
           \<and> generatePeriods z (pa_firstOrderDate pa) (pa_lastOrderDate pa) period = Some ks
           \<and> series = fillPeriods z orders period pid pa ks"
proof -
  let ?m = "foldl groupOrder [] orders"
  have "those (map (\<lambda>(k, v). map_option (Pair k) (aggregateProduct z orders period k v)) ?m) = Some result"
    using assms(1) by (simp add: aggregateOrderData_def Let_def)
  then obtain pa where mem: "(pid, pa) \<in> set ?m"
    and s: "aggregateProduct z orders period pid pa = Some series"
    using those_entry [of "aggregateProduct z orders period" ?m result pid series] assms(2) by blast
  have "map_of ?m pid = Some pa"
    using group_inv [of orders] mem by (intro map_of_is_SomeI) simp_all
  then have g: "grouped pid orders (Some pa)" using group_inv [of orders] by metis
  obtain ks where "generatePeriods z (pa_firstOrderDate pa) (pa_lastOrderDate pa) period = Some ks"
    and "series = fillPeriods z orders period pid pa ks"
    using s by (auto simp add: aggregateProduct_def)
  then show ?thesis using g by blast
qed

text \<open>The products of the mapping are exactly the products of the orders.\<close>

lemma aggregate_products:
  assumes "aggregateOrderData z orders period = Some result"
  shows "fst ` set result = o_productId ` set orders"
proof -
  let ?m = "foldl groupOrder [] orders"
  have "those (map (\<lambda>(k, v). map_option (Pair k) (aggregateProduct z orders period k v)) ?m) = Some result"
    using assms(1) by (simp add: aggregateOrderData_def Let_def)
  then have "map fst result = map fst ?m" by (rule those_keys)
  then have "set (map fst result) = set (map fst ?m)" by simp
  then have "fst ` set result = fst ` set ?m" by simp
  also have "\<dots> = o_productId ` set orders"
  proof (rule set_eqI)
    fix pid
    have g: "grouped pid orders (map_of ?m pid)" using group_inv [of orders] by blast
    show "pid \<in> fst ` set ?m \<longleftrightarrow> pid \<in> o_productId ` set orders"
    proof (cases "map_of ?m pid")
      case None
      then have "filter (\<lambda>ord. o_productId ord = pid) orders = []"
        using g by (simp add: grouped_def)
      then have "pid \<notin> o_productId ` set orders" by (auto simp add: filter_empty_conv)
      moreover have "pid \<notin> fst ` set ?m" using None by (simp add: map_of_eq_None_iff)
      ultimately show ?thesis by simp
    next
      case (Some pa)
      then have "filter (\<lambda>ord. o_productId ord = pid) orders \<noteq> []"
        using g by (simp add: grouped_def Let_def)
      then have "pid \<in> o_productId ` set orders" by (auto simp add: filter_empty_conv)
      moreover have "pid \<in> fst ` set ?m"
        using Some by (metis map_of_eq_None_iff option.distinct(1))
      ultimately show ?thesis by simp
    qed
  qed
  finally show ?thesis .
qed

section \<open>The series in a zone of constant offset\<close>

lemma advance_apart:
  assumes "startOf c s period = s"
  shows "oneBucketApart (fixedZone c) period s (advance (fixedZone c) s period)"
proof (cases period)
  case daily
  then show ?thesis by (simp add: oneBucketApart_def advance_def setDate_shift)
next
  case weekly
  then show ?thesis by (simp add: oneBucketApart_def advance_def setDate_shift)
next
  case monthly
  let ?m = "MonthFromDay (Day (s + c))"
  have s: "s = MonthStart ?m * msPerDay - c"
    using assms monthly by (simp add: startOf_def PeriodDay_def)
  have e1: "12 * (YearFromTime (s + c) - 1970) + MonthFromTime (s + c) = ?m"
    by (rule month_index)
  have e2: "12 * (YearFromTime (s + c) - 1970) + (MonthFromTime (s + c) + 1) = ?m + 1"
    using e1 by simp
  have a: "UTC (fixedZone c) (MakeDate (MakeDay (getFullYear (fixedZone c) s) (getMonth (fixedZone c) s) 1) 0) = s"
    unfolding getFullYear_def getMonth_def LocalTime_fixed UTC_fixed MakeDate_def MakeDay_def e1
    using s by simp
  have "advance (fixedZone c) s monthly = s + (MonthStart (?m + 1) - MonthStart ?m) * msPerDay"
    by (simp add: advance_def setMonth_next)
  also have "\<dots> = MonthStart (?m + 1) * msPerDay - c"
    using s by (simp add: left_diff_distrib)
  finally have b: "UTC (fixedZone c) (MakeDate (MakeDay (getFullYear (fixedZone c) s) (getMonth (fixedZone c) s + 1) 1) 0)
      = advance (fixedZone c) s monthly"
    unfolding getFullYear_def getMonth_def LocalTime_fixed UTC_fixed MakeDate_def MakeDay_def e2
    by simp
  show ?thesis using monthly a b by (simp add: oneBucketApart_def)
qed

lemma consecutive_nth:
  "consecutive z period xs \<Longrightarrow> Suc i < length xs \<Longrightarrow> xs ! Suc i = advance z (xs ! i) period"
proof (induction z period xs arbitrary: i rule: consecutive.induct)
  case (3 z period x y ys)
  then show ?case by (cases i) auto
qed simp_all

lemma fixedPeriods_props:
  fixes period :: AggregationPeriod and c :: int
  assumes "a \<le> b"
  defines "ks \<equiv> fixedPeriods c (startOf c a period) (startOf c b period) period"
  shows "ks \<noteq> []"
    and "hd ks = startOf c a period"
    and "last ks = startOf c b period"
    and "sorted_wrt (<) ks"
    and "Suc i < length ks \<Longrightarrow> oneBucketApart (fixedZone c) period (ks ! i) (ks ! Suc i)"
    and "a \<le> t \<Longrightarrow> t \<le> b \<Longrightarrow> startOf c t period \<in> set ks"
proof -
  have le: "startOf c a period \<le> startOf c b period"
    using assms(1) by (rule startOf_mono)
  show "ks \<noteq> []" "hd ks = startOf c a period"
    using loop_hd [OF le] by (simp_all add: ks_def)
  show "last ks = startOf c b period"
    unfolding ks_def using le by (intro loop_last) (simp_all add: startOf_idem)
  show "sorted_wrt (<) ks"
    by (simp add: ks_def loop_sorted)
  show "oneBucketApart (fixedZone c) period (ks ! i) (ks ! Suc i)" if i: "Suc i < length ks"
  proof -
    have "ks ! i \<in> set ks" using i by simp
    then have st: "startOf c (ks ! i) period = ks ! i"
      unfolding ks_def using loop_all_starts [OF startOf_idem] by blast
    have "consecutive (fixedZone c) period ks" unfolding ks_def by (rule loop_consecutive)
    then have "ks ! Suc i = advance (fixedZone c) (ks ! i) period"
      using i by (rule consecutive_nth)
    then show ?thesis
      using advance_apart [OF st] by simp
  qed
  show "startOf c t period \<in> set ks" if "a \<le> t" "t \<le> b"
    unfolding ks_def
  proof (rule loop_member)
    show "startOf c (startOf c a period) period = startOf c a period"
      by (rule startOf_idem)
    show "startOf c (startOf c t period) period = startOf c t period"
      by (rule startOf_idem)
    show "startOf c a period \<le> startOf c t period" using that(1) by (rule startOf_mono)
    show "startOf c t period \<le> startOf c b period" using that(2) by (rule startOf_mono)
  qed
qed

lemma generatePeriods_fixed:
  assumes "\<not> twoDigitYear (fixedZone c) a" "\<not> twoDigitYear (fixedZone c) b"
  shows "generatePeriods (fixedZone c) a b period
           = Some (fixedPeriods c (startOf c a period) (startOf c b period) period)"
  using assms by (simp add: generatePeriods_def loop_fixed getPeriodStart_fixed)

text \<open>
  In a zone of constant offset, and for orders whose local years are not among 0 to 99,
  the period loop of every product returns, so the aggregation returns its mapping, and
  the series of every product has the properties of the two lemmas that follow.
\<close>

lemma aggregate_fixed:
  fixes period :: AggregationPeriod
  assumes years: "\<forall>ord \<in> set orders. \<not> twoDigitYear (fixedZone c) (o_date ord)"
    and g: "grouped pid orders (Some pa)"
  defines "os \<equiv> filter (\<lambda>ord. o_productId ord = pid) orders"
  defines "a \<equiv> Min (set (map o_date os))" and "b \<equiv> Max (set (map o_date os))"
  defines "ks \<equiv> fixedPeriods c (startOf c a period) (startOf c b period) period"
  shows "a \<le> b"
    and "getPeriodStart (fixedZone c) a period = startOf c a period"
    and "getPeriodStart (fixedZone c) b period = startOf c b period"
    and "aggregateProduct (fixedZone c) orders period pid pa
           = Some (fillPeriods (fixedZone c) orders period pid pa ks)"
    and "\<forall>ord \<in> set os. getPeriodStart (fixedZone c) (o_date ord) period \<in> set ks"
proof -
  have ne: "os \<noteq> []" and first: "pa_firstOrderDate pa = a" and lst: "pa_lastOrderDate pa = b"
    using g by (simp_all add: grouped_def Let_def os_def a_def b_def)
  have "set os \<noteq> {}" using ne by (simp only: set_empty not_False_eq_True)
  then have fin: "finite (set (map o_date os))" "set (map o_date os) \<noteq> {}" by auto
  show ab: "a \<le> b" unfolding a_def b_def using fin by (simp add: Min_le_iff del: set_map)
  have "a \<in> set (map o_date os)" "b \<in> set (map o_date os)"
    unfolding a_def b_def using fin by (rule Min_in, rule Max_in)
  then have ya: "\<not> twoDigitYear (fixedZone c) a" and yb: "\<not> twoDigitYear (fixedZone c) b"
    using years by (auto simp add: os_def)
  show "getPeriodStart (fixedZone c) a period = startOf c a period"
    "getPeriodStart (fixedZone c) b period = startOf c b period"
    using ya yb by (simp_all add: getPeriodStart_fixed)
  show "aggregateProduct (fixedZone c) orders period pid pa
           = Some (fillPeriods (fixedZone c) orders period pid pa ks)"
    unfolding aggregateProduct_def first lst ks_def
    by (simp add: generatePeriods_fixed [OF ya yb])
  show "\<forall>ord \<in> set os. getPeriodStart (fixedZone c) (o_date ord) period \<in> set ks"
  proof
    fix x assume x: "x \<in> set os"
    then have "o_date x \<in> set (map o_date os)" by simp
    then have "a \<le> o_date x" "o_date x \<le> b"
      unfolding a_def b_def using fin(1) Min_le Max_ge by blast+
    then have "startOf c (o_date x) period \<in> set ks"
      unfolding ks_def by (rule fixedPeriods_props(6) [OF ab])
    moreover have "\<not> twoDigitYear (fixedZone c) (o_date x)" using x years by (simp add: os_def)
    ultimately show "getPeriodStart (fixedZone c) (o_date x) period \<in> set ks"
      by (simp add: getPeriodStart_fixed)
  qed
qed

lemma aggregate_fixed_returns:
  assumes "\<forall>ord \<in> set orders. \<not> twoDigitYear (fixedZone c) (o_date ord)"
  shows "\<exists>result. aggregateOrderData (fixedZone c) orders period = Some result"
proof -
  let ?m = "foldl groupOrder [] orders"
  have "aggregateProduct (fixedZone c) orders period pid pa \<noteq> None" if "(pid, pa) \<in> set ?m" for pid pa
  proof -
    have "map_of ?m pid = Some pa"
      using group_inv [of orders] that by (intro map_of_is_SomeI) simp_all
    then have "grouped pid orders (Some pa)" using group_inv [of orders] by metis
    then show ?thesis using aggregate_fixed(4) [OF assms] by simp
  qed
  then have "\<exists>r. those (map (\<lambda>(k, v). map_option (Pair k) (aggregateProduct (fixedZone c) orders period k v)) ?m) = Some r"
    by (rule those_defined)
  then show ?thesis by (simp add: aggregateOrderData_def Let_def)
qed

text \<open>Conservation in a zone of constant offset.\<close>

lemma conservation_fixed_offset:
  assumes "\<forall>ord \<in> set orders. \<not> twoDigitYear (fixedZone c) (o_date ord)"
    and "aggregateOrderData (fixedZone c) orders period = Some result"
    and "(productId, series) \<in> set result"
  shows "sum_list (map ad_totalQuantity (pa_data series))
       = sum_list (map o_quantity (filter (\<lambda>ord. o_productId ord = productId) orders))"
    and "pa_totalQuantity series
       = sum_list (map o_quantity (filter (\<lambda>ord. o_productId ord = productId) orders))"
proof -
  let ?os = "filter (\<lambda>ord. o_productId ord = productId) orders"
  let ?a = "Min (set (map o_date ?os))" and ?b = "Max (set (map o_date ?os))"
  let ?ks = "fixedPeriods c (startOf c ?a period) (startOf c ?b period) period"
  obtain pa ks where g: "grouped productId orders (Some pa)"
    and ks: "generatePeriods (fixedZone c) (pa_firstOrderDate pa) (pa_lastOrderDate pa) period = Some ks"
    and s: "series = fillPeriods (fixedZone c) orders period productId pa ks"
    using aggregate_entry [OF assms(2,3)] by blast
  have "aggregateProduct (fixedZone c) orders period productId pa = Some series"
    using ks s by (simp add: aggregateProduct_def)
  then have s': "series = fillPeriods (fixedZone c) orders period productId pa ?ks"
    using aggregate_fixed(4) [OF assms(1) g, of period] by simp
  have ab: "?a \<le> ?b" using aggregate_fixed(1) [OF assms(1) g] .
  have sorted: "sorted_wrt (<) ?ks" using fixedPeriods_props(4) [OF ab] .
  have "filter (\<lambda>ord. getPeriodStart (fixedZone c) (o_date ord) period \<in> set ?ks) ?os = ?os"
    by (rule filter_True) (rule aggregate_fixed(5) [OF assms(1) g])
  then show "sum_list (map ad_totalQuantity (pa_data series)) = sum_list (map o_quantity ?os)"
    unfolding s' using fillPeriods_data(2) [OF sorted, of "fixedZone c" orders period productId pa] by simp
  show "pa_totalQuantity series = sum_list (map o_quantity ?os)"
    unfolding s using g by (rule fillPeriods_fields(1))
qed

text \<open>Density in a zone of constant offset.\<close>

lemma density_fixed_offset:
  assumes "\<forall>ord \<in> set orders. \<not> twoDigitYear (fixedZone c) (o_date ord)"
    and "aggregateOrderData (fixedZone c) orders period = Some result"
    and "(productId, series) \<in> set result"
  defines "starts \<equiv> map ad_period (pa_data series)"
  defines "dates \<equiv> map o_date (filter (\<lambda>ord. o_productId ord = productId) orders)"
  shows "starts \<noteq> []"
    and "hd starts = getPeriodStart (fixedZone c) (Min (set dates)) period"
    and "last starts = getPeriodStart (fixedZone c) (Max (set dates)) period"
    and "sorted_wrt (<) starts"
    and "\<forall>i. Suc i < length starts \<longrightarrow> oneBucketApart (fixedZone c) period (starts ! i) (starts ! Suc i)"
    and "\<forall>ord \<in> set orders. o_productId ord = productId
            \<longrightarrow> getPeriodStart (fixedZone c) (o_date ord) period \<in> set starts"
proof -
  let ?os = "filter (\<lambda>ord. o_productId ord = productId) orders"
  let ?a = "Min (set (map o_date ?os))" and ?b = "Max (set (map o_date ?os))"
  let ?ks = "fixedPeriods c (startOf c ?a period) (startOf c ?b period) period"
  obtain pa ks where g: "grouped productId orders (Some pa)"
    and ks: "generatePeriods (fixedZone c) (pa_firstOrderDate pa) (pa_lastOrderDate pa) period = Some ks"
    and s: "series = fillPeriods (fixedZone c) orders period productId pa ks"
    using aggregate_entry [OF assms(2,3)] by blast
  have "aggregateProduct (fixedZone c) orders period productId pa = Some series"
    using ks s by (simp add: aggregateProduct_def)
  then have s': "series = fillPeriods (fixedZone c) orders period productId pa ?ks"
    using aggregate_fixed(4) [OF assms(1) g, of period] by simp
  have ab: "?a \<le> ?b" using aggregate_fixed(1) [OF assms(1) g] .
  have sorted: "sorted_wrt (<) ?ks" using fixedPeriods_props(4) [OF ab] .
  have starts: "starts = ?ks"
    unfolding starts_def s' using sorted by (rule fillPeriods_data(1))
  show "starts \<noteq> []" unfolding starts using ab by (rule fixedPeriods_props(1))
  show "hd starts = getPeriodStart (fixedZone c) (Min (set dates)) period"
    unfolding starts dates_def
    using fixedPeriods_props(2) [OF ab] aggregate_fixed(2) [OF assms(1) g] by simp
  show "last starts = getPeriodStart (fixedZone c) (Max (set dates)) period"
    unfolding starts dates_def
    using fixedPeriods_props(3) [OF ab] aggregate_fixed(3) [OF assms(1) g] by simp
  show "sorted_wrt (<) starts" unfolding starts by (rule sorted)
  show "\<forall>i. Suc i < length starts \<longrightarrow> oneBucketApart (fixedZone c) period (starts ! i) (starts ! Suc i)"
    unfolding starts using fixedPeriods_props(5) [OF ab] by blast
  show "\<forall>ord \<in> set orders. o_productId ord = productId
            \<longrightarrow> getPeriodStart (fixedZone c) (o_date ord) period \<in> set starts"
    unfolding starts using aggregate_fixed(5) [OF assms(1) g, of period] by simp
qed

section \<open>The sample orders, aggregated\<close>

lemma sample_daily:
  "aggregateOrderData utc sample_orders daily =
     Some [(''A'',
       \<lparr>pa_productId = ''A'', pa_productName = ''A'', pa_category = None,
        pa_data =
          [\<lparr>ad_period = 0, ad_productId = ''A'', ad_productName = ''A'',
            ad_totalQuantity = 2, ad_orderCount = 1, ad_avgQuantityPerOrder = 2\<rparr>,
           \<lparr>ad_period = 86400000, ad_productId = ''A'', ad_productName = ''A'',
            ad_totalQuantity = 0, ad_orderCount = 0, ad_avgQuantityPerOrder = 0\<rparr>,
           \<lparr>ad_period = 172800000, ad_productId = ''A'', ad_productName = ''A'',
            ad_totalQuantity = 5, ad_orderCount = 1, ad_avgQuantityPerOrder = 5\<rparr>],
        pa_totalOrders = 2, pa_totalQuantity = 7, pa_firstOrderDate = 0,
        pa_lastOrderDate = 176400000\<rparr>),
      (''B'',
       \<lparr>pa_productId = ''B'', pa_productName = ''B'', pa_category = None,
        pa_data =
          [\<lparr>ad_period = 86400000, ad_productId = ''B'', ad_productName = ''B'',
            ad_totalQuantity = 4, ad_orderCount = 1, ad_avgQuantityPerOrder = 4\<rparr>],
        pa_totalOrders = 1, pa_totalQuantity = 4, pa_firstOrderDate = 86400000,
        pa_lastOrderDate = 86400000\<rparr>)]"
  by code_simp

lemma sample_monthly:
  "aggregateOrderData utc sample_orders monthly =
     Some [(''A'',
       \<lparr>pa_productId = ''A'', pa_productName = ''A'', pa_category = None,
        pa_data =
          [\<lparr>ad_period = 0, ad_productId = ''A'', ad_productName = ''A'',
            ad_totalQuantity = 7, ad_orderCount = 2, ad_avgQuantityPerOrder = 7 / 2\<rparr>],
        pa_totalOrders = 2, pa_totalQuantity = 7, pa_firstOrderDate = 0,
        pa_lastOrderDate = 176400000\<rparr>),
      (''B'',
       \<lparr>pa_productId = ''B'', pa_productName = ''B'', pa_category = None,
        pa_data =
          [\<lparr>ad_period = 0, ad_productId = ''B'', ad_productName = ''B'',
            ad_totalQuantity = 4, ad_orderCount = 1, ad_avgQuantityPerOrder = 4\<rparr>],
        pa_totalOrders = 1, pa_totalQuantity = 4, pa_firstOrderDate = 86400000,
        pa_lastOrderDate = 86400000\<rparr>)]"
  by code_simp

section \<open>Three days in Cairo\<close>

text \<open>
  The daily aggregation of the three Cairo orders. The days of the orders start at the
  time values 1714082400000 (26 April, where local midnight does not exist and
  \<^verbatim>\<open>new Date(2024, 3, 26)\<close> is 01:00), 1714165200000 (27 April 00:00) and 1714251600000
  (28 April 00:00). The loop starts at the first of them and \<^verbatim>\<open>setDate\<close> keeps the
  local time 01:00: the second period is 1714168800000 (27 April 01:00), and the third,
  1714255200000 (28 April 01:00), is later than the end of the loop, 28 April 00:00.
\<close>

lemma cairo_first_start: "getPeriodStart cairo_2024 1714114800000 daily = 1714082400000"
  by code_simp

lemma cairo_second_start: "getPeriodStart cairo_2024 1714201200000 daily = 1714165200000"
  by code_simp

lemma cairo_last_start: "getPeriodStart cairo_2024 1714287600000 daily = 1714251600000"
  by code_simp

lemma cairo_first_advance: "advance cairo_2024 1714082400000 daily = 1714168800000"
  by code_simp

lemma cairo_second_advance: "advance cairo_2024 1714168800000 daily = 1714255200000"
  by code_simp

lemma cairo_periods:
  "generatePeriods cairo_2024 1714114800000 1714287600000 daily = Some [1714082400000, 1714168800000]"
proof -
  have 3: "generatePeriods_loop cairo_2024 daily 1714251600000 1714255200000 [1714082400000, 1714168800000]
      = Some [1714082400000, 1714168800000]"
    by (subst generatePeriods_loop.simps) simp
  have 2: "generatePeriods_loop cairo_2024 daily 1714251600000 1714168800000 [1714082400000]
      = Some [1714082400000, 1714168800000]"
    by (subst generatePeriods_loop.simps) (simp add: cairo_second_advance 3)
  have 1: "generatePeriods_loop cairo_2024 daily 1714251600000 1714082400000 []
      = Some [1714082400000, 1714168800000]"
    by (subst generatePeriods_loop.simps) (simp add: cairo_first_advance 2)
  show ?thesis
    by (simp add: generatePeriods_def cairo_first_start cairo_last_start 1)
qed

lemma cairo_daily:
  "aggregateOrderData cairo_2024 cairo_orders daily =
     Some [(''A'',
       \<lparr>pa_productId = ''A'', pa_productName = ''A'', pa_category = None,
        pa_data =
          [\<lparr>ad_period = 1714082400000, ad_productId = ''A'', ad_productName = ''A'',
            ad_totalQuantity = 1, ad_orderCount = 1, ad_avgQuantityPerOrder = 1\<rparr>,
           \<lparr>ad_period = 1714168800000, ad_productId = ''A'', ad_productName = ''A'',
            ad_totalQuantity = 0, ad_orderCount = 0, ad_avgQuantityPerOrder = 0\<rparr>],
        pa_totalOrders = 3, pa_totalQuantity = 7, pa_firstOrderDate = 1714114800000,
        pa_lastOrderDate = 1714287600000\<rparr>)]"
  by (simp add: aggregateOrderData_def aggregateProduct_def fillPeriods_def Let_def
      cairo_orders_def order_at_def groupOrder_def newProductAgg_def cairo_periods
      addOrder_def cairo_first_start cairo_second_start cairo_last_start emptyBucket_def
      withAverage_def)

section \<open>The t table\<close>

lemma first_key_ge_row:
  "first_key_ge [(5, a), (10, b), (20, c), (30, d), (50, e), (100, f)] df =
     (if df \<le> 5 then Some a else if df \<le> 10 then Some b else if df \<le> 20 then Some c
      else if df \<le> 30 then Some d else if df \<le> 50 then Some e else if df \<le> 100 then Some f
      else None)"
  by simp

lemma getTCritical_90:
  "getTCritical (9 / 10) df =
     (if df \<le> 5 then 2.015 else if df \<le> 10 then 1.812 else if df \<le> 20 then 1.725
      else if df \<le> 30 then 1.697 else if df \<le> 50 then 1.676 else if df \<le> 100 then 1.660
      else 1.645)"
  by (simp add: getTCritical_def T_CRITICAL_def row_90_def)

lemma getTCritical_95:
  "getTCritical (19 / 20) df =
     (if df \<le> 5 then 2.571 else if df \<le> 10 then 2.228 else if df \<le> 20 then 2.086
      else if df \<le> 30 then 2.042 else if df \<le> 50 then 2.009 else if df \<le> 100 then 1.984
      else 1.960)"
  by (simp add: getTCritical_def T_CRITICAL_def row_95_def)

lemma getTCritical_99:
  "getTCritical (99 / 100) df =
     (if df \<le> 5 then 4.032 else if df \<le> 10 then 3.169 else if df \<le> 20 then 2.845
      else if df \<le> 30 then 2.750 else if df \<le> 50 then 2.678 else if df \<le> 100 then 2.626
      else 2.576)"
  by (simp add: getTCritical_def T_CRITICAL_def row_99_def)

lemma getTCritical_fallback:
  "confidence \<noteq> 9 / 10 \<Longrightarrow> confidence \<noteq> 19 / 20 \<Longrightarrow> confidence \<noteq> 99 / 100
     \<Longrightarrow> getTCritical confidence df = getTCritical (19 / 20) df"
  by (simp add: getTCritical_def T_CRITICAL_def)

lemma getTCritical_cases:
  "getTCritical confidence df = getTCritical (9 / 10) df
   \<or> getTCritical confidence df = getTCritical (19 / 20) df
   \<or> getTCritical confidence df = getTCritical (99 / 100) df"
  using getTCritical_fallback [of confidence df] by blast


lemma getTCritical_90_le_99: "getTCritical (9 / 10) df \<le> getTCritical (99 / 100) df"
  by (simp add: getTCritical_90 getTCritical_99)

lemma getTCritical_pos: "0 < getTCritical confidence df"
proof -
  have "0 < getTCritical (9 / 10) df" "0 < getTCritical (19 / 20) df" "0 < getTCritical (99 / 100) df"
    by (simp_all add: getTCritical_90 getTCritical_95 getTCritical_99)
  then show ?thesis using getTCritical_cases [of confidence df] by metis
qed



lemma projectedData_eq:
  "p_projectedData (generateProductProjection z aggregation metrics settings period) =
     (let historicalQuantities = map ad_totalQuantity (pa_data aggregation);
          numFuturePeriods = timeframeToPeriods (s_timeframe settings) period;
          futurePeriods = generateFuturePeriods z (pa_lastOrderDate aggregation) numFuturePeriods period
      in case s_method settings of
           sma \<Rightarrow>
             map (\<lambda>p. forecastPoint p
                        (ma_forecast (simpleMovingAverage historicalQuantities (s_periods settings)))
                        (ma_standardError (simpleMovingAverage historicalQuantities (s_periods settings)))
                        (length historicalQuantities) (s_confidenceLevel settings))
               futurePeriods
         | wma \<Rightarrow>
             map (\<lambda>p. forecastPoint p
                        (ma_forecast (weightedMovingAverage historicalQuantities (s_periods settings)))
                        (ma_standardError (weightedMovingAverage historicalQuantities (s_periods settings)))
                        (length historicalQuantities) (s_confidenceLevel settings))
               futurePeriods
         | linear_regression \<Rightarrow>
             map (\<lambda>i. forecastPoint (futurePeriods ! i)
                        (rf_forecasts (linearRegressionForecast historicalQuantities numFuturePeriods) ! i)
                        (rf_standardErrors (linearRegressionForecast historicalQuantities numFuturePeriods) ! i)
                        (length historicalQuantities) (s_confidenceLevel settings))
               [0..<length futurePeriods])"
  by (cases "s_method settings") (simp_all add: generateProductProjection_def Let_def)

lemma length_generateFuturePeriods_loop: "length (generateFuturePeriods_loop z k c period) = k"
  by (induction k arbitrary: c) simp_all

lemma length_generateFuturePeriods: "length (generateFuturePeriods z lastDate k period) = k"
  by (simp add: generateFuturePeriods_def length_generateFuturePeriods_loop)





text \<open>The forecast points of a projection: one for each future period, built from the
  method's forecast and standard error for that period, the number of buckets of the
  history and the configured confidence level.\<close>

lemma projected_points:
  "length (p_projectedData (generateProductProjection z aggregation metrics settings period))
     = timeframeToPeriods (s_timeframe settings) period"
  "i < timeframeToPeriods (s_timeframe settings) period \<Longrightarrow>
     p_projectedData (generateProductProjection z aggregation metrics settings period) ! i
       = forecastPoint
           (generateFuturePeriods z (pa_lastOrderDate aggregation)
              (timeframeToPeriods (s_timeframe settings) period) period ! i)
           (unroundedForecasts aggregation settings period ! i)
           (forecastStandardErrors aggregation settings period ! i)
           (length (pa_data aggregation)) (s_confidenceLevel settings)"
  by (cases "s_method settings";
      simp add: projectedData_eq Let_def unroundedForecasts_def forecastStandardErrors_def
        length_generateFuturePeriods)+

section \<open>Series without deviation\<close>

lemma variance_zero_constant:
  assumes "variance values = 0"
  shows "\<exists>c. \<forall>v \<in> set values. v = c"
proof (cases "length values < 2")
  case True
  then have "values = [] \<or> (\<exists>v. values = [v])"
    by (cases "values") (auto simp: less_Suc_eq_0_disj numeral_2_eq_2)
  then show ?thesis by auto
next
  case False
  then have pos: "real (length values - 1) \<noteq> 0" by simp
  have "sum_list (map (\<lambda>v. (v - mean values)\<^sup>2) values) / real (length values - 1) = 0"
    using assms False by (simp add: variance_def Let_def)
  then have "sum_list (map (\<lambda>v. (v - mean values)\<^sup>2) values) = 0"
    using pos by simp
  moreover have "\<And>x. x \<in> set (map (\<lambda>v. (v - mean values)\<^sup>2) values) \<Longrightarrow> 0 \<le> x" by auto
  ultimately have "\<forall>x \<in> set (map (\<lambda>v. (v - mean values)\<^sup>2) values). x = 0"
    by (simp only: sum_list_nonneg_eq_0_iff)
  then have "\<forall>v \<in> set values. v = mean values" by simp
  then show ?thesis by blast
qed

lemma mean_constant:
  assumes "\<forall>v \<in> set xs. v = c" "xs \<noteq> []"
  shows "mean xs = c"
proof -
  have "xs = replicate (length xs) c" using assms(1) by (simp add: replicate_length_same)
  then have "sum_list xs = real (length xs) * c" by (metis sum_list_replicate)
  then show ?thesis using assms(2) by (simp add: mean_def)
qed

lemma variance_constant:
  assumes "\<forall>v \<in> set xs. v = c"
  shows "variance xs = 0"
proof (cases "length xs < 2")
  case True
  then show ?thesis by (simp add: variance_def)
next
  case False
  then have "xs \<noteq> []" by auto
  then have m: "mean xs = c" using assms by (rule mean_constant [rotated])
  have "map (\<lambda>v. (v - c)\<^sup>2) xs = map (\<lambda>v. 0) xs" using assms by (intro map_cong) simp_all
  then have "sum_list (map (\<lambda>v. (v - c)\<^sup>2) xs) = sum_list (map (\<lambda>v. 0) xs)" by (rule arg_cong)
  then have "sum_list (map (\<lambda>v. (v - c)\<^sup>2) xs) = 0" by simp
  then show ?thesis using False by (simp add: variance_def Let_def m)
qed

lemma stdDeviation_zero_constant:
  "stdDeviation values = 0 \<Longrightarrow> \<exists>c. \<forall>v \<in> set values. v = c"
  by (simp add: stdDeviation_def variance_zero_constant)

lemma window_constant:
  "\<forall>v \<in> set values. v = c \<Longrightarrow> \<forall>v \<in> set (slice_from start values). v = c"
  by (auto simp add: slice_from_def Let_def dest: in_set_dropD)

lemma window_nonempty:
  assumes "values \<noteq> []" "1 \<le> periods"
  shows "slice_from (- min periods (int (length values))) values \<noteq> []"
proof -
  define n where "n = min periods (int (length values))"
  have "0 < length values" using assms(1) by simp
  then have n: "0 < n" "n \<le> int (length values)" using assms(2) by (simp_all add: n_def)
  then have "nat (max (int (length values) + - n) 0) < length values" by linarith
  then have "drop (nat (max (int (length values) + - n) 0)) values \<noteq> []" by simp
  then show ?thesis using n unfolding n_def [symmetric] by (simp add: slice_from_def Let_def)
qed

lemma weighted_fold_constant:
  assumes "\<forall>(v, w) \<in> set zs. v = c"
  shows "foldl (\<lambda>acc (v, w). n_add acc (n_mul (Some w)
            (n_mul (n_sub (Some v) (Some c)) (n_sub (Some v) (Some c))))) (Some 0) zs = Some 0"
  using assms
proof (induction zs)
  case Nil
  then show ?case by simp
next
  case (Cons z zs)
  then show ?case
    by (cases z) (simp add: n_add_def n_mul_def n_sub_def lift2_def)
qed

lemma weights_positive:
  assumes "xs \<noteq> []"
  shows "0 < sum_list (map (\<lambda>i. real i + 1) [0..<length xs])"
proof -
  obtain k where k: "length xs = Suc k" using assms by (cases xs) auto
  have "0 \<le> sum_list (map (\<lambda>i. real i + 1) [0..<k])" by (rule sum_list_nonneg) auto
  then show ?thesis by (simp add: k)
qed

lemma weighted_sum_constant:
  fixes c :: real
  assumes "\<forall>v \<in> set xs. v = c" "length ws = length xs"
  shows "sum_list (map (\<lambda>(v, w). v * w) (zip xs ws)) = c * sum_list ws"
  using assms
proof (induction xs arbitrary: ws)
  case Nil
  then show ?case by simp
next
  case (Cons x xs)
  then obtain w ws' where "ws = w # ws'" by (cases ws) auto
  then show ?case using Cons by (simp add: algebra_simps)
qed

lemma sma_zero:
  assumes "stdDeviation values = 0" "1 \<le> periods"
  shows "ma_standardError (simpleMovingAverage values periods) = Some 0"
proof (cases "length values = 0")
  case True
  then show ?thesis by (simp add: simpleMovingAverage_def)
next
  case False
  obtain c where c: "\<forall>v \<in> set values. v = c"
    using stdDeviation_zero_constant [OF assms(1)] by blast
  define n where "n = min periods (int (length values))"
  have n: "0 < n" using False assms(2) by (simp add: n_def)
  have "variance (slice_from (- n) values) = 0"
    using window_constant [OF c] by (rule variance_constant)
  then have "stdDeviation (slice_from (- n) values) = 0" by (simp add: stdDeviation_def)
  moreover have "n_sqrt (Some (real_of_int n)) = Some (sqrt (real_of_int n))" "sqrt (real_of_int n) \<noteq> 0"
    using n by (simp_all add: n_sqrt_def)
  ultimately show ?thesis
    using False unfolding simpleMovingAverage_def Let_def n_def [symmetric] by (simp add: n_div_def)
qed

lemma wma_zero:
  assumes "stdDeviation values = 0" "1 \<le> periods"
  shows "ma_standardError (weightedMovingAverage values periods) = Some 0"
    and "ma_forecast (weightedMovingAverage values periods) \<noteq> None"
proof -
  show "ma_standardError (weightedMovingAverage values periods) = Some 0"
  proof (cases "length values = 0")
    case True
    then show ?thesis by (simp add: weightedMovingAverage_def)
  next
    case False
    obtain c where c: "\<forall>v \<in> set values. v = c"
      using stdDeviation_zero_constant [OF assms(1)] by blast
    define n where "n = min periods (int (length values))"
    let ?xs = "slice_from (- n) values"
    let ?ws = "map (\<lambda>i. real i + 1) [0..<length ?xs]"
    have n: "0 < n" using False assms(2) by (simp add: n_def)
    have xs: "\<forall>v \<in> set ?xs. v = c" using window_constant [OF c] .
    have ne: "?xs \<noteq> []" unfolding n_def using False assms(2) by (intro window_nonempty) simp_all
    have tw: "0 < sum_list ?ws" using ne by (rule weights_positive)
    have "sum_list (map (\<lambda>(v, w). v * w) (zip ?xs ?ws)) = c * sum_list ?ws"
      using xs by (rule weighted_sum_constant) simp
    then have fc: "n_div (Some (sum_list (map (\<lambda>(v, w). v * w) (zip ?xs ?ws)))) (Some (sum_list ?ws)) = Some c"
      using tw by (simp add: n_div_def)
    have "\<forall>(v, w) \<in> set (zip ?xs ?ws). v = c" using xs by (auto dest: set_zip_leftD)
    then have fold: "foldl (\<lambda>acc (v, w). n_add acc (n_mul (Some w)
            (n_mul (n_sub (Some v) (Some c)) (n_sub (Some v) (Some c))))) (Some 0) (zip ?xs ?ws) = Some 0"
      by (rule weighted_fold_constant)
    have sq: "n_sqrt (Some (real_of_int n)) = Some (sqrt (real_of_int n))" "sqrt (real_of_int n) \<noteq> 0"
      using n by (simp_all add: n_sqrt_def)
    have "n_div (Some 0) (Some (sum_list ?ws)) = Some 0" using tw by (simp add: n_div_def)
    then have "n_div (n_sqrt (n_div (Some 0) (Some (sum_list ?ws)))) (n_sqrt (Some (real_of_int n))) = Some 0"
      using sq by (simp add: n_div_def n_sqrt_def)
    then show ?thesis
      using False unfolding weightedMovingAverage_def Let_def n_def [symmetric] fc fold by simp
  qed
  show "ma_forecast (weightedMovingAverage values periods) \<noteq> None"
  proof (cases "length values = 0")
    case True
    then show ?thesis by (simp add: weightedMovingAverage_def)
  next
    case False
    let ?n = "min periods (int (length values))"
    let ?xs = "slice_from (- ?n) values"
    have ne: "?xs \<noteq> []" using False assms(2) by (intro window_nonempty) simp_all
    have "0 < sum_list (map (\<lambda>i. real i + 1) [0..<length ?xs])" using ne by (rule weights_positive)
    then show ?thesis using False by (simp add: weightedMovingAverage_def Let_def n_div_def)
  qed
qed

section \<open>The regression forecast\<close>

lemma xVariance_pos: "2 \<le> n \<Longrightarrow> 0 < xVariance n"
proof -
  assume n: "2 \<le> n"
  then have "[0..<n] = 0 # [1..<n]" by (simp add: upt_conv_Cons)
  then have "xVariance n = ((real n - 1) / 2)\<^sup>2 + sum_list (map (\<lambda>i. (real i - (real n - 1) / 2)\<^sup>2) [1..<n])"
    by (simp add: xVariance_def)
  moreover have "0 \<le> sum_list (map (\<lambda>i. (real i - (real n - 1) / 2)\<^sup>2) [1..<n])"
    by (rule sum_list_nonneg) auto
  moreover have "0 < ((real n - 1) / 2)\<^sup>2" using n by simp
  ultimately show ?thesis by linarith
qed

lemma residualSS_nonneg: "0 \<le> residualSS values"
  unfolding residualSS_def by (rule sum_list_nonneg) auto

lemma regression_forecast_three_or_more:
  assumes "3 \<le> length values" "i < periodsAhead"
  shows "rf_forecasts (linearRegressionForecast values periodsAhead) ! i
           = Some (max 0 (predict (linearRegression values) (real (length values + i))))"
    and "rf_standardErrors (linearRegressionForecast values periodsAhead) ! i
           = Some (sqrt (residualSS values / (real (length values) - 2))
                   * sqrt (1 + 1 / real (length values)
                           + (real (length values + i) - (real (length values) - 1) / 2)\<^sup>2
                             / xVariance (length values)))"
proof -
  let ?n = "length values"
  have n2: "real ?n - 2 \<noteq> 0" "0 \<le> residualSS values / (real ?n - 2)"
    using assms(1) residualSS_nonneg [of "values"] by simp_all
  have xv: "xVariance ?n \<noteq> 0" "0 < xVariance ?n" using xVariance_pos [of ?n] assms(1) by simp_all
  have "0 \<le> (real (?n + i) - (real ?n - 1) / 2)\<^sup>2 / xVariance ?n"
    using xv(2) by simp
  then have inner: "\<not> 1 + 1 / real ?n + (real (?n + i) - (real ?n - 1) / 2)\<^sup>2 / xVariance ?n < 0"
    by (smt (verit) divide_nonneg_nonneg of_nat_0_le_iff zero_le_one)
  have n0: "real ?n \<noteq> 0" using assms(1) by auto
  show "rf_forecasts (linearRegressionForecast values periodsAhead) ! i
           = Some (max 0 (predict (linearRegression values) (real (length values + i))))"
    using assms by (simp add: linearRegressionForecast_def Let_def)
  show "rf_standardErrors (linearRegressionForecast values periodsAhead) ! i
           = Some (sqrt (residualSS values / (real (length values) - 2))
                   * sqrt (1 + 1 / real (length values)
                           + (real (length values + i) - (real (length values) - 1) / 2)\<^sup>2
                             / xVariance (length values)))"
    using assms n2 xv(1) inner n0
    unfolding linearRegressionForecast_def Let_def residualSS_def [symmetric] xVariance_def [symmetric]
    by (simp add: n_div_def n_sqrt_def n_mul_def n_add_def lift2_def)
qed

lemma regression_two_standardErrors:
  assumes "length values = 2"
  shows "rf_standardErrors (linearRegressionForecast values periodsAhead) = replicate periodsAhead None"
  using assms
  by (simp add: linearRegressionForecast_def Let_def n_div_def n_sqrt_def n_mul_def lift2_def
      map_replicate_const)

lemma regression_example:
  "rf_forecasts (linearRegressionForecast [10, 20] 1) = [Some 30]
   \<and> rf_standardErrors (linearRegressionForecast [10, 20] 1) = [None]"
  by (simp add: linearRegressionForecast_def linearRegression_def Let_def mean_def predict_def
      n_div_def n_sqrt_def n_mul_def lift2_def upt_rec)

lemma forecastPoint_undefined:
  "pp_confidenceLow (forecastPoint p f None n c) = None \<and> pp_confidenceHigh (forecastPoint p f None n c) = None"
  by (cases f) (simp_all add: forecastPoint_def calculateConfidenceInterval_def Let_def n_mul_def
      n_max_def n_sub_def n_add_def lift2_def n_round2_def)

lemma regression_two_buckets_undefined:
  assumes "length (pa_data aggregation) = 2" "s_method settings = linear_regression"
    and "i < length (p_projectedData (generateProductProjection z aggregation metrics settings period))"
  shows "pp_confidenceLow (p_projectedData (generateProductProjection z aggregation metrics settings period) ! i) = None
    \<and> pp_confidenceHigh (p_projectedData (generateProductProjection z aggregation metrics settings period) ! i) = None"
proof -
  let ?k = "timeframeToPeriods (s_timeframe settings) period"
  have i: "i < ?k" using assms(3) by (simp add: projected_points(1))
  have "forecastStandardErrors aggregation settings period ! i = None"
    using assms(1,2) i by (simp add: forecastStandardErrors_def Let_def regression_two_standardErrors)
  then show ?thesis
    using i by (simp add: projected_points(2) forecastPoint_undefined)
qed

section \<open>Widening with the confidence level\<close>

lemma round2_mono: "x \<le> y \<Longrightarrow> round2 x \<le> round2 y"
  unfolding round2_def by (intro divide_right_mono of_int_le_iff [THEN iffD2] floor_mono) simp_all

lemma variance_nonneg: "0 \<le> variance values"
proof (cases "length values < 2")
  case True
  then show ?thesis by (simp add: variance_def)
next
  case False
  have "0 \<le> (\<Sum>v\<leftarrow>values. (v - mean values)\<^sup>2)" by (rule sum_list_nonneg) auto
  moreover have "0 \<le> real (length values - 1)" by simp
  ultimately have "0 \<le> (\<Sum>v\<leftarrow>values. (v - mean values)\<^sup>2) / real (length values - 1)"
    by (rule divide_nonneg_nonneg)
  then show ?thesis using False by (simp add: variance_def Let_def)
qed

lemma stdDeviation_nonneg: "0 \<le> stdDeviation values"
  by (simp add: stdDeviation_def variance_nonneg)

text \<open>With a window of at least one period both moving averages yield a forecast and a
  standard error that are numbers, the error not negative; so does the regression, unless
  the series has exactly two buckets.\<close>

lemma sma_defined:
  assumes "1 \<le> periods"
  shows "\<exists>f se. ma_forecast (simpleMovingAverage values periods) = Some f
           \<and> ma_standardError (simpleMovingAverage values periods) = Some se \<and> 0 \<le> se"
proof (cases "length values = 0")
  case True
  then show ?thesis by (simp add: simpleMovingAverage_def)
next
  case False
  define n where "n = min periods (int (length values))"
  have n: "0 < n" using False assms by (simp add: n_def)
  have sq: "n_sqrt (Some (real_of_int n)) = Some (sqrt (real_of_int n))" "0 < sqrt (real_of_int n)"
    using n by (simp_all add: n_sqrt_def)
  have "0 \<le> stdDeviation (slice_from (- n) values) / sqrt (real_of_int n)"
    using stdDeviation_nonneg [of "slice_from (- n) values"] sq(2) by simp
  then show ?thesis
    using False sq unfolding simpleMovingAverage_def Let_def n_def [symmetric] by (simp add: n_div_def)
qed

lemma weighted_fold_defined:
  assumes "\<forall>(v, w) \<in> set zs. 0 \<le> w" "0 \<le> a"
  shows "\<exists>b. foldl (\<lambda>acc (v, w). n_add acc (n_mul (Some w)
            (n_mul (n_sub (Some v) (Some f)) (n_sub (Some v) (Some f))))) (Some a) zs = Some b \<and> 0 \<le> b"
  using assms
proof (induction zs arbitrary: a)
  case Nil
  then show ?case by simp
next
  case (Cons x zs)
  obtain v w where x: "x = (v, w)" by (cases x)
  have w: "0 \<le> w" using Cons.prems(1) x by simp
  have "0 \<le> w * ((v - f) * (v - f))" using w by simp
  then have a: "0 \<le> a + w * ((v - f) * (v - f))" using Cons.prems(2) by simp
  have rest: "\<forall>(v, w) \<in> set zs. 0 \<le> w" using Cons.prems(1) by simp
  show ?case
    using Cons.IH [OF rest a] by (simp add: x n_add_def n_mul_def n_sub_def lift2_def)
qed

lemma wma_defined:
  assumes "1 \<le> periods"
  shows "\<exists>f se. ma_forecast (weightedMovingAverage values periods) = Some f
           \<and> ma_standardError (weightedMovingAverage values periods) = Some se \<and> 0 \<le> se"
proof (cases "length values = 0")
  case True
  then show ?thesis by (simp add: weightedMovingAverage_def)
next
  case False
  define n where "n = min periods (int (length values))"
  let ?xs = "slice_from (- n) values"
  let ?ws = "map (\<lambda>i. real i + 1) [0..<length ?xs]"
  define f where "f = sum_list (map (\<lambda>(v, w). v * w) (zip ?xs ?ws)) / sum_list ?ws"
  have n: "0 < n" using False assms by (simp add: n_def)
  have ne: "?xs \<noteq> []" unfolding n_def using False assms by (intro window_nonempty) simp_all
  have tw: "0 < sum_list ?ws" using ne by (rule weights_positive)
  have fc: "n_div (Some (sum_list (map (\<lambda>(v, w). v * w) (zip ?xs ?ws)))) (Some (sum_list ?ws)) = Some f"
    using tw by (simp add: n_div_def f_def)
  have "\<forall>(v, w) \<in> set (zip ?xs ?ws). 0 \<le> w" by (auto dest!: set_zip_rightD)
  then obtain b where fold: "foldl (\<lambda>acc (v, w). n_add acc (n_mul (Some w)
            (n_mul (n_sub (Some v) (Some f)) (n_sub (Some v) (Some f))))) (Some 0) (zip ?xs ?ws) = Some b"
    and b: "0 \<le> b"
    using weighted_fold_defined [of "zip ?xs ?ws" 0 f] by auto
  have sq: "n_sqrt (Some (real_of_int n)) = Some (sqrt (real_of_int n))" "0 < sqrt (real_of_int n)"
    using n by (simp_all add: n_sqrt_def)
  have q: "0 \<le> b / sum_list ?ws" using b tw by simp
  then have "n_sqrt (n_div (Some b) (Some (sum_list ?ws))) = Some (sqrt (b / sum_list ?ws))"
    using tw by (simp add: n_div_def n_sqrt_def)
  then have se: "n_div (n_sqrt (n_div (Some b) (Some (sum_list ?ws)))) (n_sqrt (Some (real_of_int n)))
      = Some (sqrt (b / sum_list ?ws) / sqrt (real_of_int n))"
    using sq by (simp add: n_div_def)
  have "0 \<le> sqrt (b / sum_list ?ws) / sqrt (real_of_int n)" using q sq(2) by simp
  then show ?thesis
    using False unfolding weightedMovingAverage_def Let_def n_def [symmetric] fc fold se by simp
qed

lemma lr_defined:
  assumes "length values \<noteq> 2" "i < periodsAhead"
  shows "\<exists>f se. rf_forecasts (linearRegressionForecast values periodsAhead) ! i = Some f
           \<and> rf_standardErrors (linearRegressionForecast values periodsAhead) ! i = Some se \<and> 0 \<le> se"
proof (cases "length values < 2")
  case True
  then show ?thesis using assms(2) by (simp add: linearRegressionForecast_def)
next
  case False
  then have n: "3 \<le> length values" using assms(1) by simp
  let ?n = "length values"
  have "0 \<le> residualSS values / (real ?n - 2)"
    using n residualSS_nonneg [of "values"] by simp
  then have "0 \<le> sqrt (residualSS values / (real ?n - 2))" by simp
  moreover have "0 \<le> (real (?n + i) - (real ?n - 1) / 2)\<^sup>2 / xVariance ?n"
    using xVariance_pos [of ?n] n by simp
  then have "0 \<le> 1 + 1 / real ?n + (real (?n + i) - (real ?n - 1) / 2)\<^sup>2 / xVariance ?n"
    by (smt (verit) divide_nonneg_nonneg of_nat_0_le_iff zero_le_one)
  then have "0 \<le> sqrt (1 + 1 / real ?n + (real (?n + i) - (real ?n - 1) / 2)\<^sup>2 / xVariance ?n)"
    by simp
  ultimately have "0 \<le> sqrt (residualSS values / (real ?n - 2))
      * sqrt (1 + 1 / real ?n + (real (?n + i) - (real ?n - 1) / 2)\<^sup>2 / xVariance ?n)"
    by (rule mult_nonneg_nonneg)
  then show ?thesis
    using regression_forecast_three_or_more [OF n assms(2)] by simp
qed

lemma method_defined:
  assumes "1 \<le> s_periods settings"
    and "s_method settings = linear_regression \<Longrightarrow> length (pa_data aggregation) \<noteq> 2"
    and "i < timeframeToPeriods (s_timeframe settings) period"
  shows "\<exists>f se. unroundedForecasts aggregation settings period ! i = Some f
           \<and> forecastStandardErrors aggregation settings period ! i = Some se \<and> 0 \<le> se"
proof (cases "s_method settings")
  case sma
  then show ?thesis
    using sma_defined [OF assms(1), of "map ad_totalQuantity (pa_data aggregation)"] assms(3)
    by (simp add: unroundedForecasts_def forecastStandardErrors_def Let_def)
next
  case wma
  then show ?thesis
    using wma_defined [OF assms(1), of "map ad_totalQuantity (pa_data aggregation)"] assms(3)
    by (simp add: unroundedForecasts_def forecastStandardErrors_def Let_def)
next
  case linear_regression
  then have "length (map ad_totalQuantity (pa_data aggregation)) \<noteq> 2" using assms(2) by simp
  then show ?thesis
    using lr_defined [OF _ assms(3), of "map ad_totalQuantity (pa_data aggregation)"] linear_regression
    by (simp add: unroundedForecasts_def forecastStandardErrors_def Let_def)
qed

lemma forecastPoint_widens:
  assumes "0 \<le> se"
  shows "widens (forecastPoint p (Some f) (Some se) n (9 / 10))
           (forecastPoint p (Some f) (Some se) n (99 / 100))"
proof -
  let ?df = "max 1 (int n - 1)"
  have m: "getTCritical (9 / 10) ?df * se \<le> getTCritical (99 / 100) ?df * se"
    using getTCritical_90_le_99 [of ?df] assms by (rule mult_right_mono)
  have "round2 (max 0 (f - getTCritical (99 / 100) ?df * se)) \<le> round2 (max 0 (f - getTCritical (9 / 10) ?df * se))"
    using m by (intro round2_mono) simp
  moreover have "round2 (f + getTCritical (9 / 10) ?df * se) \<le> round2 (f + getTCritical (99 / 100) ?df * se)"
    using m by (intro round2_mono) simp
  ultimately show ?thesis
    by (simp add: widens_def forecastPoint_def calculateConfidenceInterval_def Let_def n_mul_def n_max_def
        n_sub_def n_add_def lift2_def n_round2_def)
qed

text \<open>
  Apart from the regression on exactly two buckets, and for a window of at least one
  period (the configuration allows 2 to 12), the intervals at level 0.99 contain those at
  level 0.90, point by point.
\<close>

lemma confidence_interval_widens:
  assumes "1 \<le> s_periods settings"
    and "s_method settings = linear_regression \<Longrightarrow> length (pa_data aggregation) \<noteq> 2"
  shows "list_all2 widens
     (p_projectedData (generateProductProjection z aggregation metrics (settings\<lparr>s_confidenceLevel := 0.90\<rparr>) period))
     (p_projectedData (generateProductProjection z aggregation metrics (settings\<lparr>s_confidenceLevel := 0.99\<rparr>) period))"
proof (rule list_all2_all_nthI)
  show "length (p_projectedData (generateProductProjection z aggregation metrics (settings\<lparr>s_confidenceLevel := 0.90\<rparr>) period))
      = length (p_projectedData (generateProductProjection z aggregation metrics (settings\<lparr>s_confidenceLevel := 0.99\<rparr>) period))"
    by (simp add: projected_points(1))
next
  fix i
  assume "i < length (p_projectedData (generateProductProjection z aggregation metrics (settings\<lparr>s_confidenceLevel := 0.90\<rparr>) period))"
  then have i: "i < timeframeToPeriods (s_timeframe settings) period"
    by (simp add: projected_points(1))
  obtain f se where f: "unroundedForecasts aggregation settings period ! i = Some f"
    and se: "forecastStandardErrors aggregation settings period ! i = Some se" and nn: "0 \<le> se"
    using method_defined [OF assms i] by blast
  have u: "unroundedForecasts aggregation (settings\<lparr>s_confidenceLevel := c\<rparr>) period
      = unroundedForecasts aggregation settings period" for c
    by (cases "s_method settings") (simp_all add: unroundedForecasts_def)
  have s: "forecastStandardErrors aggregation (settings\<lparr>s_confidenceLevel := c\<rparr>) period
      = forecastStandardErrors aggregation settings period" for c
    by (cases "s_method settings") (simp_all add: forecastStandardErrors_def)
  show "widens
      (p_projectedData (generateProductProjection z aggregation metrics (settings\<lparr>s_confidenceLevel := 0.90\<rparr>) period) ! i)
      (p_projectedData (generateProductProjection z aggregation metrics (settings\<lparr>s_confidenceLevel := 0.99\<rparr>) period) ! i)"
    using i nn by (simp add: projected_points(2) u s f se forecastPoint_widens)
qed

section \<open>Rounding of the forecast points\<close>












text \<open>The series 10, 16 under a moving average over two periods, one week ahead: the
  forecast is 13, the standard deviation of the window the root of 18, and the standard
  error 3.\<close>

lemma demo_interval_periods: "timeframeToPeriods (WeekMatch (Suc 0)) weekly = Suc 0"
  by (simp add: timeframeToPeriods_def getPeriodsPerWeek_def)





section \<open>Properties\<close>

text \<open>
  C1. The claim that, for every order list and bucket width, the bucket totals of every
  product add up to the quantities of the product's orders (and to the series' own
  \<open>totalQuantity\<close> field) fails where the host's clock is put forward at local midnight.
  \<^verbatim>\<open>getPeriodStart\<close> builds the start of 26 April 2024 in Cairo as \<^verbatim>\<open>new Date(2024, 3, 26)\<close>,
  which is 01:00 because 00:00 does not exist; the loop of \<^verbatim>\<open>generatePeriods\<close> advances
  with \<^verbatim>\<open>setDate\<close>, which keeps 01:00, so its second period is 27 April 01:00, while the
  orders of 27 and 28 April look for the keys 27 April 00:00 and 28 April 00:00, find no
  bucket, and are dropped by \<^verbatim>\<open>if (data)\<close>. For the three Cairo orders aggregated by day the
  aggregation returns one product whose buckets hold 1 of the 7 units ordered, while the
  \<open>totalQuantity\<close> field is 7. (In a zone of constant offset, for orders whose local
  years are not among 0 to 99, the loop returns and the sums agree for every order list
  and bucket width: lemmas \<open>aggregate_fixed_returns\<close> and \<open>conservation_fixed_offset\<close>.)
\<close>

theorem conservation_fails_at_clock_change:
  "aggregateOrderData cairo_2024 cairo_orders daily \<noteq> None
   \<and> map fst (the (aggregateOrderData cairo_2024 cairo_orders daily)) = [''A'']
   \<and> sum_list (map ad_totalQuantity
         (pa_data (snd (hd (the (aggregateOrderData cairo_2024 cairo_orders daily)))))) = 1
   \<and> sum_list (map o_quantity (filter (\<lambda>ord. o_productId ord = ''A'') cairo_orders)) = 7
   \<and> pa_totalQuantity (snd (hd (the (aggregateOrderData cairo_2024 cairo_orders daily)))) = 7"
proof -
  have "sum_list (map o_quantity (filter (\<lambda>ord. o_productId ord = ''A'') cairo_orders)) = 7"
    by (simp add: cairo_orders_def order_at_def)
  then show ?thesis by (simp add: cairo_daily)
qed

text \<open>
  C2. The claim that every product's series is contiguous, with no bucket between the
  product's first and last order date skipped, fails on the same input. The loop of
  \<^verbatim>\<open>generatePeriods\<close> runs from 26 April 01:00 in steps that keep 01:00, and its third
  start, 28 April 01:00, is later than the end of the loop, 28 April 00:00. The series
  of the three Cairo orders has the two buckets 26 April 01:00 and 27 April 01:00: the
  bucket of the last order date, 28 April, is missing, and the period starts of the
  orders of 27 and 28 April are not bucket starts of the series. (In a zone of constant
  offset, for orders whose local years are not among 0 to 99, every series runs from the
  bucket of the first order date to that of the last, strictly increasing, each start one
  bucket width after the one before, and holds the bucket of every order:
  lemma \<open>density_fixed_offset\<close>.)
\<close>

theorem density_fails_at_clock_change:
  "aggregateOrderData cairo_2024 cairo_orders daily \<noteq> None
   \<and> map fst (the (aggregateOrderData cairo_2024 cairo_orders daily)) = [''A'']
   \<and> map ad_period (pa_data (snd (hd (the (aggregateOrderData cairo_2024 cairo_orders daily)))))
       = [1714082400000, 1714168800000]
   \<and> pa_lastOrderDate (snd (hd (the (aggregateOrderData cairo_2024 cairo_orders daily)))) = 1714287600000
   \<and> getPeriodStart cairo_2024 1714287600000 daily = 1714251600000
   \<and> getPeriodStart cairo_2024 1714201200000 daily = 1714165200000
   \<and> 1714251600000 \<notin> set (map ad_period
         (pa_data (snd (hd (the (aggregateOrderData cairo_2024 cairo_orders daily))))))
   \<and> 1714165200000 \<notin> set (map ad_period
         (pa_data (snd (hd (the (aggregateOrderData cairo_2024 cairo_orders daily))))))"
  by (simp add: cairo_daily cairo_last_start cairo_second_start)

text \<open>
  C3. Trend classification: the trend is stable unless both R squared > 0.10 and
  |slope / mean| > 0.02 hold, in which case it is increasing if slope > 0 and decreasing
  otherwise (with a zero mean the normalised slope is taken as 0, so the trend is
  stable); a series with mean 100, slope 1 and R squared 0.5 is classified stable.
\<close>

theorem determineTrend_classification:
  "(avgValue \<noteq> 0 \<longrightarrow>
      determineTrend slope rSquared avgValue =
        (if rSquared > 0.10 \<and> \<bar>slope / avgValue\<bar> > 0.02
         then (if slope > 0 then Increasing else Decreasing)
         else Stable))
   \<and> (avgValue = 0 \<longrightarrow> determineTrend slope rSquared avgValue = Stable)
   \<and> determineTrend 1 0.5 100 = Stable"
  by (simp add: determineTrend_def Let_def)

theorem determineTrend_classification_witness:
  "(100::real) \<noteq> 0 \<and> determineTrend 5 0.5 100 = Increasing
   \<and> determineTrend (-5) 0.5 100 = Decreasing
   \<and> determineTrend 5 0.05 100 = Stable
   \<and> determineTrend 5 0.5 0 = Stable"
  using determineTrend_classification [of 100 5 "0.5"]
        determineTrend_classification [of 100 "-5" "0.5"]
        determineTrend_classification [of 100 5 "0.05"]
        determineTrend_classification [of 0 5 "0.5"]
  by simp




text \<open>
  C5. The claim that the regression forecast yields a well-defined finite standard error
  and confidence bounds for every series of at least two buckets fails for exactly two
  buckets: the residual standard error divides by \<open>n - 2 = 0\<close>. At the series 10, 20
  the forecast for the next index is 30, its standard error is undefined, and so are
  both confidence bounds. (For three or more buckets the code computes the claimed
  formula: lemma \<open>regression_forecast_three_or_more\<close>; for two, every bound of every
  forecast point is undefined: lemma \<open>regression_two_buckets_undefined\<close>.)
\<close>

theorem regression_two_points_evaluated:
  "rf_forecasts (linearRegressionForecast [10, 20] 1) = [Some 30]
   \<and> rf_standardErrors (linearRegressionForecast [10, 20] 1) = [None]
   \<and> calculateConfidenceInterval (Some 30) None 2 0.95 = (None, None)
   \<and> map pp_confidenceLow (p_projectedData
         (generateProductProjection z demo_pair demo_metrics demo_regression weekly)) = [None]
   \<and> map pp_confidenceHigh (p_projectedData
         (generateProductProjection z demo_pair demo_metrics demo_regression weekly)) = [None]"
proof -
  let ?P = "generateProductProjection z demo_pair demo_metrics demo_regression weekly"
  have len: "length (p_projectedData ?P) = Suc 0"
    by (simp add: projected_points(1) demo_regression_def demo_interval_periods)
  have h1: "length (pa_data demo_pair) = 2" by (simp add: demo_pair_def)
  have h2: "s_method demo_regression = linear_regression" by (simp add: demo_regression_def)
  have h3: "0 < length (p_projectedData ?P)" using len by simp
  have "pp_confidenceLow (p_projectedData ?P ! 0) = None \<and> pp_confidenceHigh (p_projectedData ?P ! 0) = None"
    using h1 h2 h3 by (rule regression_two_buckets_undefined)
  then have "map pp_confidenceLow (p_projectedData ?P) = [None]"
    "map pp_confidenceHigh (p_projectedData ?P) = [None]"
    using len by (cases "p_projectedData ?P"; simp)+
  moreover have "calculateConfidenceInterval (Some 30) None 2 0.95 = (None, None)"
    by (simp add: calculateConfidenceInterval_def Let_def n_mul_def n_max_def n_sub_def n_add_def lift2_def)
  ultimately show ?thesis using regression_example by simp
qed

text \<open>
  C6. The claim that for every series and method the interval of every forecast point at
  level 0.99 contains the interval at level 0.90 fails for the regression on exactly two
  buckets, by the division of C5: at the series 10, 20 both bounds of the forecast point
  are undefined at level 0.90 and at level 0.99, so neither interval contains the other.
  (For every other series and method, with a window of at least one period, the
  intervals at 0.99 contain those at 0.90 point by point:
  lemma \<open>confidence_interval_widens\<close>.)
\<close>

theorem confidence_intervals_undefined_at_two_buckets:
  "map pp_confidenceLow (p_projectedData (generateProductProjection z demo_pair demo_metrics
         (demo_regression\<lparr>s_confidenceLevel := 0.90\<rparr>) weekly)) = [None]
   \<and> map pp_confidenceHigh (p_projectedData (generateProductProjection z demo_pair demo_metrics
         (demo_regression\<lparr>s_confidenceLevel := 0.90\<rparr>) weekly)) = [None]
   \<and> map pp_confidenceLow (p_projectedData (generateProductProjection z demo_pair demo_metrics
         (demo_regression\<lparr>s_confidenceLevel := 0.99\<rparr>) weekly)) = [None]
   \<and> map pp_confidenceHigh (p_projectedData (generateProductProjection z demo_pair demo_metrics
         (demo_regression\<lparr>s_confidenceLevel := 0.99\<rparr>) weekly)) = [None]
   \<and> \<not> list_all2 widens
         (p_projectedData (generateProductProjection z demo_pair demo_metrics
            (demo_regression\<lparr>s_confidenceLevel := 0.90\<rparr>) weekly))
         (p_projectedData (generateProductProjection z demo_pair demo_metrics
            (demo_regression\<lparr>s_confidenceLevel := 0.99\<rparr>) weekly))"
proof -
  have pt: "\<exists>x. p_projectedData (generateProductProjection z demo_pair demo_metrics
                  (demo_regression\<lparr>s_confidenceLevel := c\<rparr>) weekly) = [x]
                \<and> pp_confidenceLow x = None \<and> pp_confidenceHigh x = None" for c
  proof -
    let ?ps = "p_projectedData (generateProductProjection z demo_pair demo_metrics
                  (demo_regression\<lparr>s_confidenceLevel := c\<rparr>) weekly)"
    have len: "length ?ps = Suc 0"
      by (simp add: projected_points(1) demo_regression_def demo_interval_periods)
    then obtain x where ps: "?ps = [x]" by (cases ?ps) simp_all
    have h1: "length (pa_data demo_pair) = 2" by (simp add: demo_pair_def)
    have h2: "s_method (demo_regression\<lparr>s_confidenceLevel := c\<rparr>) = linear_regression"
      by (simp add: demo_regression_def)
    have h3: "0 < length ?ps" using len by simp
    have "pp_confidenceLow (?ps ! 0) = None \<and> pp_confidenceHigh (?ps ! 0) = None"
      using h1 h2 h3 by (rule regression_two_buckets_undefined)
    then show ?thesis using ps by simp
  qed
  obtain x where x: "p_projectedData (generateProductProjection z demo_pair demo_metrics
                  (demo_regression\<lparr>s_confidenceLevel := 0.90\<rparr>) weekly) = [x]"
      "pp_confidenceLow x = None" "pp_confidenceHigh x = None"
    using pt [of "0.90"] by blast
  obtain y where y: "p_projectedData (generateProductProjection z demo_pair demo_metrics
                  (demo_regression\<lparr>s_confidenceLevel := 0.99\<rparr>) weekly) = [y]"
      "pp_confidenceLow y = None" "pp_confidenceHigh y = None"
    using pt [of "0.99"] by blast
  show ?thesis
    unfolding x(1) y(1) using x(2,3) y(2,3) by (simp add: widens_def)
qed



text \<open>
  C8. Zero-standard-deviation guard: for every series whose quantities have standard
  deviation 0, and every window size of at least 1, the outlier list is empty and the
  standard errors of the simple and the weighted moving average are 0; being defined,
  they were computed without a division by zero, as was the weighted forecast.
\<close>

theorem zero_deviation_guard:
  assumes "stdDeviation (map snd data) = 0" "1 \<le> periods"
  shows "detectOutliers data zScoreThreshold = []
    \<and> ma_standardError (simpleMovingAverage (map snd data) periods) = Some 0
    \<and> ma_standardError (weightedMovingAverage (map snd data) periods) = Some 0
    \<and> ma_forecast (weightedMovingAverage (map snd data) periods) \<noteq> None"
  using assms sma_zero [OF assms] wma_zero [OF assms] by (simp add: detectOutliers_def)

theorem zero_deviation_guard_witness:
  "stdDeviation (map snd [(0, 5), (86400000, 5), (172800000, 5), (259200000, 5)]) = 0
   \<and> (1::int) \<le> 2
   \<and> detectOutliers [(0, 5), (86400000, 5), (172800000, 5), (259200000, 5)] 2.5 = []
   \<and> ma_standardError (simpleMovingAverage [5, 5, 5, 5] 2) = Some 0
   \<and> ma_standardError (weightedMovingAverage [5, 5, 5, 5] 2) = Some 0"
proof -
  have h: "stdDeviation (map snd [(0::Date, 5::real), (86400000, 5), (172800000, 5), (259200000, 5)]) = 0"
    by (simp add: stdDeviation_def variance_def mean_def)
  show ?thesis
    using zero_deviation_guard [OF h, of 2 "2.5"] h by simp
qed

text \<open>
  C9. The claim that the category of a series is that of the first order of the
  product that has a non-null category fails: the grouping loop copies the category of
  the product's first order when it creates the entry and never looks at it again. In
  the sample orders the first order of product A has no category and the second has
  one; the series has none.
\<close>

theorem category_first_non_null_counterexample:
  "aggregateOrderData utc sample_orders daily \<noteq> None
   \<and> fst (hd (the (aggregateOrderData utc sample_orders daily))) = ''A''
   \<and> hd (the (aggregateOrderData utc sample_orders daily))
        \<in> set (the (aggregateOrderData utc sample_orders daily))
   \<and> pa_category (snd (hd (the (aggregateOrderData utc sample_orders daily)))) = None
   \<and> firstNonNullCategory ''A'' sample_orders = Some ''tools''"
proof -
  have "firstNonNullCategory ''A'' sample_orders = Some ''tools''"
    by (simp add: firstNonNullCategory_def sample_orders_def order_at_def)
  then show ?thesis by (simp add: sample_daily)
qed

text \<open>
  C9, as amended: the category of a series is the category field of the first order of
  the product in the order list, absent when that order has none. This holds of every
  entry of the mapping that the aggregation returns, in every time zone.
\<close>

theorem category_of_first_order:
  "aggregateOrderData z orders period = Some result \<Longrightarrow> (productId, series) \<in> set result \<Longrightarrow>
     pa_category series = o_category (hd (filter (\<lambda>ord. o_productId ord = productId) orders))"
proof -
  assume "aggregateOrderData z orders period = Some result" "(productId, series) \<in> set result"
  then obtain pa ks where g: "grouped productId orders (Some pa)"
    and s: "series = fillPeriods z orders period productId pa ks"
    using aggregate_entry by blast
  show ?thesis
    unfolding s using g by (rule fillPeriods_fields(2))
qed

theorem category_of_first_order_witness:
  "aggregateOrderData utc sample_orders monthly
      = Some (the (aggregateOrderData utc sample_orders monthly))
   \<and> (''A'', snd (hd (the (aggregateOrderData utc sample_orders monthly))))
      \<in> set (the (aggregateOrderData utc sample_orders monthly))
   \<and> pa_category (snd (hd (the (aggregateOrderData utc sample_orders monthly)))) = None
   \<and> o_category (hd (filter (\<lambda>ord. o_productId ord = ''A'') sample_orders)) = None"
proof -
  have r: "aggregateOrderData utc sample_orders monthly
      = Some (the (aggregateOrderData utc sample_orders monthly))"
    by (simp add: sample_monthly)
  have m: "(''A'', snd (hd (the (aggregateOrderData utc sample_orders monthly))))
      \<in> set (the (aggregateOrderData utc sample_orders monthly))"
    by (simp add: sample_monthly)
  have f: "o_category (hd (filter (\<lambda>ord. o_productId ord = ''A'') sample_orders)) = None"
    by (simp add: sample_orders_def order_at_def)
  show ?thesis
    using category_of_first_order [OF r m] r m f by simp
qed



end
